theory Spec2Isabelle
  imports Main "HOL-Library.Word"
begin

section \<open>Values, handles and errors\<close>

text \<open>
  The contract \<open>TrustRoll\<close> (Solidity 0.8.24) keeps three mappings from addresses to
  encrypted values. An encrypted value is a typed wrapper around a \<open>bytes32\<close> handle;
  the all-zero handle is the value of a mapping slot that was never written.
\<close>

type_synonym address = "160 word"
type_synonym uint256 = "256 word"
type_synonym uint32 = "32 word"
type_synonym uint8 = "8 word"
type_synonym handle = nat

datatype euint8 = Euint8 handle
datatype euint32 = Euint32 handle
datatype ebool = Ebool handle
datatype externalEuint8 = ExternalEuint8 handle

fun unwrap8 :: "euint8 \<Rightarrow> handle" where
  "unwrap8 (Euint8 h) = h"

fun unwrap32 :: "euint32 \<Rightarrow> handle" where
  "unwrap32 (Euint32 h) = h"

fun unwrapBool :: "ebool \<Rightarrow> handle" where
  "unwrapBool (Ebool h) = h"

record Ticket =
  firstNumber :: euint8
  secondNumber :: euint8
  exists :: bool

record DrawResult =
  firstWinning :: euint8
  secondWinning :: euint8
  reward :: euint32

text \<open>
  The \<open>require\<close> strings of the contract and the failures of the library, under the
  names the specification gives them: \<open>ZeroPayment\<close> is "No ETH sent",
  \<open>BelowMinimum\<close> is "Insufficient ETH for points", \<open>NoActiveTicket\<close> is
  "Ticket missing". \<open>Panic\<close> is the arithmetic panic of checked \<open>uint256\<close>
  multiplication, \<open>NonPayable\<close> the compiler's rejection of value sent to a function
  that is not \<open>payable\<close>.
\<close>

datatype error =
    ZeroPayment
  | BelowMinimum
  | NoActiveTicket
  | InvalidProof
  | UnknownHandle
  | Panic
  | NonPayable

type_synonym 'a res = "error + 'a"

definition andThen :: "'a res \<Rightarrow> ('a \<Rightarrow> 'b res) \<Rightarrow> 'b res" where
  "andThen m f = (case m of Inl e \<Rightarrow> Inl e | Inr x \<Rightarrow> f x)"

datatype payload = P8 uint8 | P32 uint32 | PBool bool

datatype opcode = Add | Sub | Rem | Eq | Select

datatype slot =
    BalanceSlot address
  | TicketFirstSlot address
  | TicketSecondSlot address
  | TicketExistsSlot address
  | LastResultSlot address

datatype event =
    PointsPurchased address uint256 uint32
  | TicketPurchased address
  | RoundPlayed address

text \<open>What one call does, in the order in which it does it.\<close>

datatype step =
    Literal handle
  | Random handle
  | Admit handle
  | Compute opcode handle
  | Grant handle address
  | Store slot
  | Emit event

text \<open>
  Modelled from the spec: the input proof is an opaque byte string for the contract, and
  the code that verifies it belongs to the FHE library, which is not part of the
  repository. Following section 4.3 of the specification, a proof binds a batch of raw
  ciphertexts to one (target, submitter) pair; here the batch lists each external handle
  with the byte it encrypts.
\<close>

record inputProof =
  target :: address
  submitter :: address
  batch :: "(handle \<times> uint8) list"

section \<open>The state: contract storage and the encrypted-computation engine\<close>

text \<open>
  One record holds what a call can read or change. The fields \<open>balances\<close>, \<open>tickets\<close>
  and \<open>lastResults\<close> are the three mappings of the contract; \<open>thisAddress\<close> and
  \<open>ethBalance\<close> are the contract's account. The engine behind the FHE library is
  \<open>payloads\<close> (the ciphertext behind each handle, kept in clear), \<open>fresh\<close> (the next unused
  handle), \<open>grants\<close> (the access-control ledger) and the randomness source \<open>entropy\<close>, of
  which \<open>draws\<close> bytes are used. \<open>trace\<close> records the steps taken, oldest first.
\<close>

record state =
  payloads :: "handle \<rightharpoonup> payload"
  fresh :: handle
  grants :: "(handle \<times> address) set"
  entropy :: "nat \<Rightarrow> uint8"
  draws :: nat
  thisAddress :: address
  ethBalance :: nat
  balances :: "address \<Rightarrow> euint32"
  tickets :: "address \<Rightarrow> Ticket"
  lastResults :: "address \<Rightarrow> DrawResult"
  trace :: "step list"

definition POINTS_PER_ETH :: uint32 where
  "POINTS_PER_ETH = 10000"

definition TICKET_COST :: uint32 where
  "TICKET_COST = 10"

definition ONE_MATCH_REWARD :: uint32 where
  "ONE_MATCH_REWARD = 100"

definition TWO_MATCH_REWARD :: uint32 where
  "TWO_MATCH_REWARD = 1000"

definition ether :: uint256 where
  "ether = 1000000000000000000"

subsection \<open>The FHE library\<close>

text \<open>
  Modelled from the spec: the library \<open>FHE\<close> of \<open>@fhevm/solidity\<close> is imported by the
  contract and is not part of the repository. The definitions of this subsection follow
  sections 4.1 to 4.5 of the specification, in the form its design notes propose for a
  test double: plaintext arithmetic with explicit handle bookkeeping. Every created
  handle is new (4.1); the operations are modular arithmetic on fixed widths and never
  branch on a value (4.2); an uninitialised operand counts as zero; admission checks that
  the proof binds the ciphertext to this contract and this submitter and gives no grant
  (4.3); the grants are a set that only grows and is not consulted by the operations
  (4.4); every random byte is a new draw from the source (4.5).
\<close>

definition alloc :: "state \<Rightarrow> payload \<Rightarrow> (handle \<Rightarrow> step) \<Rightarrow> state" where
  "alloc s p mk =
     s\<lparr>payloads := (payloads s)(fresh s \<mapsto> p),
       fresh := fresh s + 1,
       trace := trace s @ [mk (fresh s)]\<rparr>"

definition create :: "state \<Rightarrow> payload \<Rightarrow> (handle \<Rightarrow> step) \<Rightarrow> state \<times> handle" where
  "create s p mk = (alloc s p mk, fresh s)"

definition read8 :: "state \<Rightarrow> euint8 \<Rightarrow> uint8 res" where
  "read8 s x =
     (if unwrap8 x = 0 then Inr 0
      else case payloads s (unwrap8 x) of
             Some (P8 w) \<Rightarrow> Inr w
           | _ \<Rightarrow> Inl UnknownHandle)"

definition read32 :: "state \<Rightarrow> euint32 \<Rightarrow> uint32 res" where
  "read32 s x =
     (if unwrap32 x = 0 then Inr 0
      else case payloads s (unwrap32 x) of
             Some (P32 w) \<Rightarrow> Inr w
           | _ \<Rightarrow> Inl UnknownHandle)"

definition readBool :: "state \<Rightarrow> ebool \<Rightarrow> bool res" where
  "readBool s x =
     (if unwrapBool x = 0 then Inr False
      else case payloads s (unwrapBool x) of
             Some (PBool b) \<Rightarrow> Inr b
           | _ \<Rightarrow> Inl UnknownHandle)"

definition new8 :: "state \<Rightarrow> uint8 \<Rightarrow> (handle \<Rightarrow> step) \<Rightarrow> (state \<times> euint8) res" where
  "new8 s w mk = (case create s (P8 w) mk of (s', h) \<Rightarrow> Inr (s', Euint8 h))"

definition new32 :: "state \<Rightarrow> uint32 \<Rightarrow> (handle \<Rightarrow> step) \<Rightarrow> (state \<times> euint32) res" where
  "new32 s w mk = (case create s (P32 w) mk of (s', h) \<Rightarrow> Inr (s', Euint32 h))"

definition newBool :: "state \<Rightarrow> bool \<Rightarrow> (handle \<Rightarrow> step) \<Rightarrow> (state \<times> ebool) res" where
  "newBool s b mk = (case create s (PBool b) mk of (s', h) \<Rightarrow> Inr (s', Ebool h))"

definition asEuint8 :: "state \<Rightarrow> uint8 \<Rightarrow> (state \<times> euint8) res" where
  "asEuint8 s v = new8 s v Literal"

definition asEuint32 :: "state \<Rightarrow> uint32 \<Rightarrow> (state \<times> euint32) res" where
  "asEuint32 s v = new32 s v Literal"

definition add32 :: "state \<Rightarrow> euint32 \<Rightarrow> euint32 \<Rightarrow> (state \<times> euint32) res" where
  "add32 s a b =
     andThen (read32 s a) (\<lambda>x.
     andThen (read32 s b) (\<lambda>y.
     new32 s (x + y) (Compute Add)))"

definition sub32 :: "state \<Rightarrow> euint32 \<Rightarrow> euint32 \<Rightarrow> (state \<times> euint32) res" where
  "sub32 s a b =
     andThen (read32 s a) (\<lambda>x.
     andThen (read32 s b) (\<lambda>y.
     new32 s (x - y) (Compute Sub)))"

definition add8 :: "state \<Rightarrow> euint8 \<Rightarrow> euint8 \<Rightarrow> (state \<times> euint8) res" where
  "add8 s a b =
     andThen (read8 s a) (\<lambda>x.
     andThen (read8 s b) (\<lambda>y.
     new8 s (x + y) (Compute Add)))"

definition rem8 :: "state \<Rightarrow> euint8 \<Rightarrow> uint8 \<Rightarrow> (state \<times> euint8) res" where
  "rem8 s a k =
     andThen (read8 s a) (\<lambda>x.
     if k = 0 then Inl Panic
     else new8 s (x mod k) (Compute Rem))"

definition eq8 :: "state \<Rightarrow> euint8 \<Rightarrow> euint8 \<Rightarrow> (state \<times> ebool) res" where
  "eq8 s a b =
     andThen (read8 s a) (\<lambda>x.
     andThen (read8 s b) (\<lambda>y.
     newBool s (x = y) (Compute Eq)))"

definition select8 :: "state \<Rightarrow> ebool \<Rightarrow> euint8 \<Rightarrow> euint8 \<Rightarrow> (state \<times> euint8) res" where
  "select8 s c a b =
     andThen (readBool s c) (\<lambda>t.
     andThen (read8 s a) (\<lambda>x.
     andThen (read8 s b) (\<lambda>y.
     new8 s (if t then x else y) (Compute Select))))"

definition select32 :: "state \<Rightarrow> ebool \<Rightarrow> euint32 \<Rightarrow> euint32 \<Rightarrow> (state \<times> euint32) res" where
  "select32 s c a b =
     andThen (readBool s c) (\<lambda>t.
     andThen (read32 s a) (\<lambda>x.
     andThen (read32 s b) (\<lambda>y.
     new32 s (if t then x else y) (Compute Select))))"

definition randEuint8 :: "state \<Rightarrow> (state \<times> euint8) res" where
  "randEuint8 s = new8 (s\<lparr>draws := draws s + 1\<rparr>) (entropy s (draws s)) Random"

definition verifies :: "inputProof \<Rightarrow> address \<Rightarrow> address \<Rightarrow> bool" where
  "verifies pf tgt sub \<longleftrightarrow> target pf = tgt \<and> submitter pf = sub"

definition fromExternal ::
  "state \<Rightarrow> address \<Rightarrow> externalEuint8 \<Rightarrow> inputProof \<Rightarrow> (state \<times> euint8) res" where
  "fromExternal s sender x pf =
     (case x of ExternalEuint8 raw \<Rightarrow>
        if verifies pf (thisAddress s) sender
        then (case map_of (batch pf) raw of
                Some w \<Rightarrow> new8 s w Admit
              | None \<Rightarrow> Inl InvalidProof)
        else Inl InvalidProof)"

definition allow :: "state \<Rightarrow> handle \<Rightarrow> address \<Rightarrow> state" where
  "allow s h a = s\<lparr>grants := insert (h, a) (grants s), trace := trace s @ [Grant h a]\<rparr>"

definition allowThis :: "state \<Rightarrow> handle \<Rightarrow> state" where
  "allowThis s h = allow s h (thisAddress s)"

subsection \<open>Storage writes and events of the contract\<close>

definition setBalance :: "state \<Rightarrow> address \<Rightarrow> euint32 \<Rightarrow> state" where
  "setBalance s a b =
     s\<lparr>balances := (balances s)(a := b), trace := trace s @ [Store (BalanceSlot a)]\<rparr>"

definition setTicketFirst :: "state \<Rightarrow> address \<Rightarrow> euint8 \<Rightarrow> state" where
  "setTicketFirst s a x =
     s\<lparr>tickets := (tickets s)(a := (tickets s a)\<lparr>firstNumber := x\<rparr>),
       trace := trace s @ [Store (TicketFirstSlot a)]\<rparr>"

definition setTicketSecond :: "state \<Rightarrow> address \<Rightarrow> euint8 \<Rightarrow> state" where
  "setTicketSecond s a x =
     s\<lparr>tickets := (tickets s)(a := (tickets s a)\<lparr>secondNumber := x\<rparr>),
       trace := trace s @ [Store (TicketSecondSlot a)]\<rparr>"

definition setTicketExists :: "state \<Rightarrow> address \<Rightarrow> bool \<Rightarrow> state" where
  "setTicketExists s a b =
     s\<lparr>tickets := (tickets s)(a := (tickets s a)\<lparr>exists := b\<rparr>),
       trace := trace s @ [Store (TicketExistsSlot a)]\<rparr>"

definition setLastResult :: "state \<Rightarrow> address \<Rightarrow> DrawResult \<Rightarrow> state" where
  "setLastResult s a r =
     s\<lparr>lastResults := (lastResults s)(a := r), trace := trace s @ [Store (LastResultSlot a)]\<rparr>"

definition emit :: "state \<Rightarrow> event \<Rightarrow> state" where
  "emit s ev = s\<lparr>trace := trace s @ [Emit ev]\<rparr>"

text \<open>Checked multiplication of Solidity 0.8: an overflow of \<open>uint256\<close> is a panic.\<close>

definition checkedMul :: "uint256 \<Rightarrow> uint256 \<Rightarrow> uint256 res" where
  "checkedMul a b = (if unat a * unat b < 2 ^ 256 then Inr (a * b) else Inl Panic)"

section \<open>The entry points of the contract\<close>

text \<open>
  Each function follows its Solidity source statement by statement; \<open>sender\<close> is
  \<open>msg.sender\<close> and \<open>msgValue\<close> is \<open>msg.value\<close>. A failed \<open>require\<close>, a panic and a
  failure of the library are the \<open>Inl\<close> results. Arguments of a call are evaluated from
  left to right. In \<open>playRound\<close> the variable \<open>reward\<close>, assigned three times in the source,
  is \<open>reward0\<close>, \<open>reward1\<close> and \<open>reward2\<close>, and the results of the nested calls have names
  of their own (\<open>r1\<close>, \<open>e1\<close>, \<open>isOne\<close>, ...).
\<close>

definition purchasePoints :: "state \<Rightarrow> address \<Rightarrow> uint256 \<Rightarrow> (state \<times> euint32) res" where
  "purchasePoints s sender msgValue =
     (if \<not> 0 < msgValue then Inl ZeroPayment
      else
        andThen (checkedMul msgValue (ucast POINTS_PER_ETH)) (\<lambda>product.
        let pointsValue = product div ether in
        if \<not> 0 < pointsValue then Inl BelowMinimum
        else
          andThen (asEuint32 s (ucast pointsValue)) (\<lambda>(s, addedPoints).
          andThen (add32 s (balances s sender) addedPoints) (\<lambda>(s, updatedBalance).
          let s = setBalance s sender updatedBalance;
              s = allowThis s (unwrap32 updatedBalance);
              s = allow s (unwrap32 updatedBalance) sender;
              s = emit s (PointsPurchased sender msgValue (ucast pointsValue))
          in Inr (s, updatedBalance)))))"

definition purchaseTicket ::
  "state \<Rightarrow> address \<Rightarrow> externalEuint8 \<Rightarrow> externalEuint8 \<Rightarrow> inputProof \<Rightarrow> state res" where
  "purchaseTicket s sender firstNumber' secondNumber' pf =
     andThen (asEuint32 s TICKET_COST) (\<lambda>(s, cost).
     andThen (sub32 s (balances s sender) cost) (\<lambda>(s, updatedBalance).
     andThen (fromExternal s sender firstNumber' pf) (\<lambda>(s, firstEncrypted).
     andThen (fromExternal s sender secondNumber' pf) (\<lambda>(s, secondEncrypted).
     let s = setBalance s sender updatedBalance;
         s = setTicketFirst s sender firstEncrypted;
         s = setTicketSecond s sender secondEncrypted;
         s = setTicketExists s sender True;
         s = allowThis s (unwrap32 updatedBalance);
         s = allow s (unwrap32 updatedBalance) sender;
         s = allowThis s (unwrap8 firstEncrypted);
         s = allowThis s (unwrap8 secondEncrypted);
         s = allow s (unwrap8 firstEncrypted) sender;
         s = allow s (unwrap8 secondEncrypted) sender;
         s = emit s (TicketPurchased sender)
     in Inr s))))"

definition playRound ::
  "state \<Rightarrow> address \<Rightarrow> (state \<times> euint8 \<times> euint8 \<times> euint32) res" where
  "playRound s sender =
     (if \<not> exists (tickets s sender) then Inl NoActiveTicket
      else
        andThen (asEuint8 s 1) (\<lambda>(s, baseOne).
        andThen (asEuint8 s 0) (\<lambda>(s, zero).
        andThen (randEuint8 s) (\<lambda>(s, randomFirst).
        andThen (randEuint8 s) (\<lambda>(s, randomSecond).
        andThen (rem8 s randomFirst 9) (\<lambda>(s, r1).
        andThen (add8 s r1 baseOne) (\<lambda>(s, winningFirst).
        andThen (rem8 s randomSecond 9) (\<lambda>(s, r2).
        andThen (add8 s r2 baseOne) (\<lambda>(s, winningSecond).
        andThen (eq8 s (firstNumber (tickets s sender)) winningFirst) (\<lambda>(s, e1).
        andThen (select8 s e1 baseOne zero) (\<lambda>(s, firstHit).
        andThen (eq8 s (secondNumber (tickets s sender)) winningSecond) (\<lambda>(s, e2).
        andThen (select8 s e2 baseOne zero) (\<lambda>(s, secondHit).
        andThen (add8 s firstHit secondHit) (\<lambda>(s, totalHits).
        andThen (asEuint32 s 0) (\<lambda>(s, reward0).
        andThen (eq8 s totalHits baseOne) (\<lambda>(s, isOne).
        andThen (asEuint32 s ONE_MATCH_REWARD) (\<lambda>(s, oneReward).
        andThen (select32 s isOne oneReward reward0) (\<lambda>(s, reward1).
        andThen (asEuint8 s 2) (\<lambda>(s, two).
        andThen (eq8 s totalHits two) (\<lambda>(s, isTwo).
        andThen (asEuint32 s TWO_MATCH_REWARD) (\<lambda>(s, twoReward).
        andThen (select32 s isTwo twoReward reward1) (\<lambda>(s, reward2).
        andThen (add32 s (balances s sender) reward2) (\<lambda>(s, updatedBalance).
        let s = setBalance s sender updatedBalance;
            s = setTicketExists s sender False;
            s = setLastResult s sender
                  \<lparr>firstWinning = winningFirst, secondWinning = winningSecond,
                   reward = reward2\<rparr>;
            s = allowThis s (unwrap32 updatedBalance);
            s = allow s (unwrap32 updatedBalance) sender;
            s = allowThis s (unwrap8 winningFirst);
            s = allowThis s (unwrap8 winningSecond);
            s = allowThis s (unwrap32 reward2);
            s = allow s (unwrap8 winningFirst) sender;
            s = allow s (unwrap8 winningSecond) sender;
            s = allow s (unwrap32 reward2) sender;
            s = emit s (RoundPlayed sender)
        in Inr (s, winningFirst, winningSecond, reward2))))))))))))))))))))))))"

definition getEncryptedBalance :: "state \<Rightarrow> address \<Rightarrow> euint32" where
  "getEncryptedBalance s player = balances s player"

definition getTicket :: "state \<Rightarrow> address \<Rightarrow> euint8 \<times> euint8 \<times> bool" where
  "getTicket s player =
     (firstNumber (tickets s player), secondNumber (tickets s player), exists (tickets s player))"

definition getLastDraw :: "state \<Rightarrow> address \<Rightarrow> euint8 \<times> euint8 \<times> euint32" where
  "getLastDraw s player =
     (firstWinning (lastResults s player), secondWinning (lastResults s player),
      reward (lastResults s player))"

section \<open>Calls, reverts and the ether held by the contract\<close>

datatype call =
    PurchasePoints
  | PurchaseTicket externalEuint8 externalEuint8 inputProof
  | PlayRound
  | GetEncryptedBalance address
  | GetTicket address
  | GetLastDraw address

datatype returned =
    ReturnedBalance euint32
  | ReturnedNothing
  | ReturnedDraw euint8 euint8 euint32
  | ReturnedTicket euint8 euint8 bool

text \<open>
  Only \<open>purchasePoints\<close> is \<open>payable\<close>; the compiler makes every other function
  reject a call that carries value.
\<close>

fun dispatch :: "state \<Rightarrow> address \<Rightarrow> uint256 \<Rightarrow> call \<Rightarrow> (state \<times> returned) res" where
  "dispatch s sender msgValue PurchasePoints =
     andThen (purchasePoints s sender msgValue) (\<lambda>(s', b). Inr (s', ReturnedBalance b))"
| "dispatch s sender msgValue (PurchaseTicket x y pf) =
     (if msgValue \<noteq> 0 then Inl NonPayable
      else andThen (purchaseTicket s sender x y pf) (\<lambda>s'. Inr (s', ReturnedNothing)))"
| "dispatch s sender msgValue PlayRound =
     (if msgValue \<noteq> 0 then Inl NonPayable
      else andThen (playRound s sender)
             (\<lambda>(s', w1, w2, r). Inr (s', ReturnedDraw w1 w2 r)))"
| "dispatch s sender msgValue (GetEncryptedBalance player) =
     (if msgValue \<noteq> 0 then Inl NonPayable
      else Inr (s, ReturnedBalance (getEncryptedBalance s player)))"
| "dispatch s sender msgValue (GetTicket player) =
     (if msgValue \<noteq> 0 then Inl NonPayable
      else case getTicket s player of (a, b, e) \<Rightarrow> Inr (s, ReturnedTicket a b e))"
| "dispatch s sender msgValue (GetLastDraw player) =
     (if msgValue \<noteq> 0 then Inl NonPayable
      else case getLastDraw s player of (a, b, r) \<Rightarrow> Inr (s, ReturnedDraw a b r))"

text \<open>
  A call is a transaction: the value sent is credited to the contract before the body
  runs, and a revert restores the state in which the call started, the value included.
\<close>

definition exec :: "state \<Rightarrow> address \<Rightarrow> uint256 \<Rightarrow> call \<Rightarrow> state \<times> returned res" where
  "exec s sender msgValue c =
     (case dispatch (s\<lparr>ethBalance := ethBalance s + unat msgValue\<rparr>) sender msgValue c of
        Inl e \<Rightarrow> (s, Inl e)
      | Inr (s', r) \<Rightarrow> (s', Inr r))"

fun execAll :: "state \<Rightarrow> (address \<times> uint256 \<times> call) list \<Rightarrow> state" where
  "execAll s [] = s"
| "execAll s ((sender, msgValue, c) # cs) = execAll (fst (exec s sender msgValue c)) cs"

text \<open>The contract as deployed at an address, with a randomness source.\<close>

definition deploy :: "address \<Rightarrow> (nat \<Rightarrow> uint8) \<Rightarrow> state" where
  "deploy a src =
     \<lparr>payloads = Map.empty, fresh = 1, grants = {}, entropy = src, draws = 0,
      thisAddress = a, ethBalance = 0,
      balances = (\<lambda>_. Euint32 0),
      tickets = (\<lambda>_. \<lparr>firstNumber = Euint8 0, secondNumber = Euint8 0, exists = False\<rparr>),
      lastResults =
        (\<lambda>_. \<lparr>firstWinning = Euint8 0, secondWinning = Euint8 0, reward = Euint32 0\<rparr>),
      trace = []\<rparr>"

section \<open>Observations used by the properties\<close>

text \<open>The balance a player would decrypt; an account never written holds zero.\<close>

definition balanceOf :: "state \<Rightarrow> address \<Rightarrow> uint32 res" where
  "balanceOf s a = read32 s (balances s a)"

text \<open>What a handle decrypts to, as a number, when the handle can be read.\<close>

definition clear32 :: "state \<Rightarrow> euint32 \<Rightarrow> nat option" where
  "clear32 s x = (case read32 s x of Inl e \<Rightarrow> None | Inr w \<Rightarrow> Some (unat w))"

definition clear8 :: "state \<Rightarrow> euint8 \<Rightarrow> nat option" where
  "clear8 s x = (case read8 s x of Inl e \<Rightarrow> None | Inr w \<Rightarrow> Some (unat w))"

definition clearBalance :: "state \<Rightarrow> address \<Rightarrow> nat option" where
  "clearBalance s a = clear32 s (balances s a)"

fun isRandom :: "step \<Rightarrow> bool" where
  "isRandom (Random h) = True"
| "isRandom other = False"

text \<open>A handle carries the grant to the contract itself and the grant to a principal.\<close>

definition granted :: "state \<Rightarrow> address \<Rightarrow> handle \<Rightarrow> bool" where
  "granted s a h \<longleftrightarrow> (h, thisAddress s) \<in> grants s \<and> (h, a) \<in> grants s"

text \<open>
  A stored handle is known when the engine has issued it (or it is the zero handle) and
  it carries a payload of its width. Every state the contract reaches is consistent:
  the handles of all accounts are known.
\<close>

definition known8 :: "state \<Rightarrow> euint8 \<Rightarrow> bool" where
  "known8 s x \<longleftrightarrow> unwrap8 x < fresh s \<and> \<not> isl (read8 s x)"

definition known32 :: "state \<Rightarrow> euint32 \<Rightarrow> bool" where
  "known32 s x \<longleftrightarrow> unwrap32 x < fresh s \<and> \<not> isl (read32 s x)"

definition consistent :: "state \<Rightarrow> bool" where
  "consistent s \<longleftrightarrow>
     0 < fresh s \<and>
     (\<forall>a. known32 s (balances s a)) \<and>
     (\<forall>a. known8 s (firstNumber (tickets s a))) \<and>
     (\<forall>a. known8 s (secondNumber (tickets s a)))"

text \<open>
  Every handle stored in an account is the zero handle or carries both grants. This is
  what keeps the stored values decryptable by their owner and usable by the contract.
\<close>

definition covered :: "state \<Rightarrow> bool" where
  "covered s \<longleftrightarrow>
     (\<forall>a. (unwrap32 (balances s a) = 0 \<or> granted s a (unwrap32 (balances s a)))
        \<and> (unwrap8 (firstNumber (tickets s a)) = 0
             \<or> granted s a (unwrap8 (firstNumber (tickets s a))))
        \<and> (unwrap8 (secondNumber (tickets s a)) = 0
             \<or> granted s a (unwrap8 (secondNumber (tickets s a))))
        \<and> (unwrap8 (firstWinning (lastResults s a)) = 0
             \<or> granted s a (unwrap8 (firstWinning (lastResults s a))))
        \<and> (unwrap8 (secondWinning (lastResults s a)) = 0
             \<or> granted s a (unwrap8 (secondWinning (lastResults s a))))
        \<and> (unwrap32 (reward (lastResults s a)) = 0
             \<or> granted s a (unwrap32 (reward (lastResults s a)))))"

text \<open>The winning number the contract derives from a random byte.\<close>

definition winning :: "uint8 \<Rightarrow> uint8" where
  "winning r = r mod 9 + 1"

section \<open>A sample run\<close>

text \<open>
  The scenario of the repository's tests: Alice buys points with one ether, buys the
  ticket (1, 2) and plays a round. The randomness source yields the bytes 0, 1, 2, ...
  so that the winning numbers of the first round are 1 and 2. In a second scenario Alice
  buys the ticket without having bought points first.
\<close>

definition lottery :: address where
  "lottery = 4096"

definition alice :: address where
  "alice = 17"

definition byteSource :: "nat \<Rightarrow> uint8" where
  "byteSource n = of_nat n"

definition picks :: inputProof where
  "picks = \<lparr>target = lottery, submitter = alice, batch = [(7, 1), (8, 2)]\<rparr>"

definition buyTicket :: call where
  "buyTicket = PurchaseTicket (ExternalEuint8 7) (ExternalEuint8 8) picks"

definition start :: state where
  "start = deploy lottery byteSource"

definition afterPoints :: state where
  "afterPoints = fst (exec start alice ether PurchasePoints)"

definition afterTicket :: state where
  "afterTicket = fst (exec afterPoints alice 0 buyTicket)"

definition afterRound :: state where
  "afterRound = fst (exec afterTicket alice 0 PlayRound)"

definition overdrawn :: state where
  "overdrawn = fst (exec start alice 0 buyTicket)"

definition overdrawnRound :: state where
  "overdrawnRound = fst (exec overdrawn alice 0 PlayRound)"

section \<open>Running the engine symbolically\<close>

lemma andThen_Inr: "andThen (Inr x) f = f x"
  by (simp add: andThen_def)

lemma andThen_Inl: "andThen (Inl e) f = Inl e"
  by (simp add: andThen_def)

lemma andThen_weak_cong: "m = m' \<Longrightarrow> andThen m f = andThen m' f"
  by simp

lemma andThenE:
  assumes "andThen m f = Inr r"
  obtains x where "m = Inr x" and "f x = Inr r"
  using assms by (cases m) (simp_all add: andThen_def)

lemma alloc_fields:
  "fresh (alloc s p mk) = fresh s + 1"
  "payloads (alloc s p mk) = (payloads s)(fresh s \<mapsto> p)"
  "grants (alloc s p mk) = grants s"
  "entropy (alloc s p mk) = entropy s"
  "draws (alloc s p mk) = draws s"
  "thisAddress (alloc s p mk) = thisAddress s"
  "ethBalance (alloc s p mk) = ethBalance s"
  "balances (alloc s p mk) = balances s"
  "tickets (alloc s p mk) = tickets s"
  "lastResults (alloc s p mk) = lastResults s"
  "trace (alloc s p mk) = trace s @ [mk (fresh s)]"
  by (simp_all add: alloc_def)

lemma new_eqs:
  "new8 s w mk = Inr (alloc s (P8 w) mk, Euint8 (fresh s))"
  "new32 s v mk = Inr (alloc s (P32 v) mk, Euint32 (fresh s))"
  "newBool s b mk = Inr (alloc s (PBool b) mk, Ebool (fresh s))"
  by (simp_all add: new8_def new32_def newBool_def create_def)

lemma read8_alloc:
  "read8 (alloc s p mk) x =
     (if unwrap8 x = fresh s \<and> 0 < fresh s
      then (case p of P8 w \<Rightarrow> Inr w | _ \<Rightarrow> Inl UnknownHandle)
      else read8 s x)"
  by (auto simp: read8_def alloc_def)

lemma read32_alloc:
  "read32 (alloc s p mk) x =
     (if unwrap32 x = fresh s \<and> 0 < fresh s
      then (case p of P32 w \<Rightarrow> Inr w | _ \<Rightarrow> Inl UnknownHandle)
      else read32 s x)"
  by (auto simp: read32_def alloc_def)

lemma readBool_alloc:
  "readBool (alloc s p mk) x =
     (if unwrapBool x = fresh s \<and> 0 < fresh s
      then (case p of PBool w \<Rightarrow> Inr w | _ \<Rightarrow> Inl UnknownHandle)
      else readBool s x)"
  by (auto simp: readBool_def alloc_def)

lemma read_draws:
  "read8 (s\<lparr>draws := d\<rparr>) x = read8 s x"
  "read32 (s\<lparr>draws := d\<rparr>) y = read32 s y"
  "readBool (s\<lparr>draws := d\<rparr>) z = readBool s z"
  by (simp_all add: read8_def read32_def readBool_def)

lemmas exec_simps = andThen_Inr andThen_Inl alloc_fields new_eqs read8_alloc read32_alloc
  readBool_alloc read_draws asEuint8_def asEuint32_def add32_def sub32_def add8_def rem8_def
  eq8_def select8_def select32_def randEuint8_def

lemmas store_defs = setBalance_def setTicketFirst_def setTicketSecond_def setTicketExists_def
  setLastResult_def emit_def allow_def allowThis_def

text \<open>
  What each entry point does in a state where the handles of the caller's account are
  known: the handles it returns, the payloads behind them and every field of the new state.
\<close>

lemma ucast_rate: "(ucast POINTS_PER_ETH :: uint256) = 10000"
  by (simp add: POINTS_PER_ETH_def)

lemma purchasePoints_exec:
  assumes "0 < fresh s"
    and "unwrap32 (balances s sender) < fresh s"
    and "read32 s (balances s sender) = Inr b"
    and "0 < v" and "unat v * 10000 < 2 ^ 256"
    and "pts = v * 10000 div ether" and "0 < pts"
  shows "\<exists>s'. purchasePoints s sender v = Inr (s', Euint32 (fresh s + 1))
       \<and> fresh s' = fresh s + 2
       \<and> (\<forall>h<fresh s. payloads s' h = payloads s h)
       \<and> payloads s' (fresh s) = Some (P32 (ucast pts))
       \<and> payloads s' (fresh s + 1) = Some (P32 (b + ucast pts))
       \<and> balances s' = (balances s)(sender := Euint32 (fresh s + 1))
       \<and> tickets s' = tickets s \<and> lastResults s' = lastResults s
       \<and> grants s' = grants s \<union> {(fresh s + 1, thisAddress s), (fresh s + 1, sender)}
       \<and> entropy s' = entropy s \<and> draws s' = draws s
       \<and> thisAddress s' = thisAddress s \<and> ethBalance s' = ethBalance s
       \<and> trace s' = trace s @
            [Literal (fresh s), Compute Add (fresh s + 1), Store (BalanceSlot sender),
             Grant (fresh s + 1) (thisAddress s), Grant (fresh s + 1) sender,
             Emit (PointsPurchased sender v (ucast pts))]"
  apply (intro exI conjI)
  using assms
                apply (simp add: purchasePoints_def checkedMul_def ucast_rate exec_simps Let_def
      cong: andThen_weak_cong)
               apply (simp_all add: store_defs alloc_fields assms)
  apply auto
  done

lemma purchaseTicket_exec:
  assumes "0 < fresh s"
    and "unwrap32 (balances s sender) < fresh s"
    and "read32 s (balances s sender) = Inr b"
    and "verifies pf (thisAddress s) sender"
    and "map_of (batch pf) x = Some p1" and "map_of (batch pf) y = Some p2"
  shows "\<exists>s'. purchaseTicket s sender (ExternalEuint8 x) (ExternalEuint8 y) pf = Inr s'
       \<and> fresh s' = fresh s + 4
       \<and> (\<forall>h<fresh s. payloads s' h = payloads s h)
       \<and> payloads s' (fresh s + 1) = Some (P32 (b - TICKET_COST))
       \<and> payloads s' (fresh s + 2) = Some (P8 p1)
       \<and> payloads s' (fresh s + 3) = Some (P8 p2)
       \<and> balances s' = (balances s)(sender := Euint32 (fresh s + 1))
       \<and> tickets s' = (tickets s)(sender :=
            \<lparr>firstNumber = Euint8 (fresh s + 2), secondNumber = Euint8 (fresh s + 3),
             exists = True\<rparr>)
       \<and> lastResults s' = lastResults s
       \<and> grants s' = grants s \<union>
            {(fresh s + 1, thisAddress s), (fresh s + 1, sender),
             (fresh s + 2, thisAddress s), (fresh s + 3, thisAddress s),
             (fresh s + 2, sender), (fresh s + 3, sender)}
       \<and> entropy s' = entropy s \<and> draws s' = draws s
       \<and> thisAddress s' = thisAddress s \<and> ethBalance s' = ethBalance s
       \<and> trace s' = trace s @
            [Literal (fresh s), Compute Sub (fresh s + 1), Admit (fresh s + 2),
             Admit (fresh s + 3),
             Store (BalanceSlot sender), Store (TicketFirstSlot sender),
             Store (TicketSecondSlot sender), Store (TicketExistsSlot sender),
             Grant (fresh s + 1) (thisAddress s), Grant (fresh s + 1) sender,
             Grant (fresh s + 2) (thisAddress s), Grant (fresh s + 3) (thisAddress s),
             Grant (fresh s + 2) sender, Grant (fresh s + 3) sender,
             Emit (TicketPurchased sender)]"
  apply (intro exI conjI)
  using assms
                apply (simp add: purchaseTicket_def fromExternal_def exec_simps Let_def
      cong: andThen_weak_cong)
               apply (simp_all add: store_defs alloc_fields assms)
  apply auto
  done

lemma playRound_exec:
  assumes "0 < fresh s" and "exists (tickets s sender)"
    and "unwrap8 (firstNumber (tickets s sender)) < fresh s"
    and "unwrap8 (secondNumber (tickets s sender)) < fresh s"
    and "unwrap32 (balances s sender) < fresh s"
    and "read8 s (firstNumber (tickets s sender)) = Inr p1"
    and "read8 s (secondNumber (tickets s sender)) = Inr p2"
    and "read32 s (balances s sender) = Inr b"
    and "w1 = entropy s (draws s) mod 9 + 1"
    and "w2 = entropy s (draws s + 1) mod 9 + 1"
    and "n = (if p1 = w1 then 1 else 0) + (if p2 = w2 then 1 else (0::uint8))"
    and "rw = (if n = 2 then TWO_MATCH_REWARD else if n = 1 then ONE_MATCH_REWARD else 0)"
  shows "\<exists>s'. playRound s sender =
           Inr (s', Euint8 (fresh s + 5), Euint8 (fresh s + 7), Euint32 (fresh s + 20))
       \<and> fresh s' = fresh s + 22
       \<and> (\<forall>h<fresh s. payloads s' h = payloads s h)
       \<and> payloads s' (fresh s + 5) = Some (P8 w1)
       \<and> payloads s' (fresh s + 7) = Some (P8 w2)
       \<and> payloads s' (fresh s + 20) = Some (P32 rw)
       \<and> payloads s' (fresh s + 21) = Some (P32 (b + rw))
       \<and> balances s' = (balances s)(sender := Euint32 (fresh s + 21))
       \<and> tickets s' = (tickets s)(sender := (tickets s sender)\<lparr>exists := False\<rparr>)
       \<and> lastResults s' = (lastResults s)(sender :=
            \<lparr>firstWinning = Euint8 (fresh s + 5), secondWinning = Euint8 (fresh s + 7),
             reward = Euint32 (fresh s + 20)\<rparr>)
       \<and> grants s' = grants s \<union>
            {(fresh s + 21, thisAddress s), (fresh s + 21, sender),
             (fresh s + 5, thisAddress s), (fresh s + 7, thisAddress s),
             (fresh s + 20, thisAddress s), (fresh s + 5, sender),
             (fresh s + 7, sender), (fresh s + 20, sender)}
       \<and> entropy s' = entropy s \<and> draws s' = draws s + 2
       \<and> thisAddress s' = thisAddress s \<and> ethBalance s' = ethBalance s
       \<and> payloads s' (fresh s + 12) = Some (P8 n)
       \<and> filter isRandom (drop (length (trace s)) (trace s')) =
            [Random (fresh s + 2), Random (fresh s + 3)]"
  apply (intro exI conjI)
  using assms(1-8)
                apply (simp add: playRound_def exec_simps Let_def cong: andThen_weak_cong)
  apply (simp_all add: store_defs alloc_fields assms)
  apply auto
  done

section \<open>Consistency is an invariant\<close>

lemma read32_cases: "read32 s x = Inl e \<Longrightarrow> e = UnknownHandle"
  by (auto simp: read32_def split: if_splits option.splits payload.splits)

lemma read8_cases: "read8 s x = Inl e \<Longrightarrow> e = UnknownHandle"
  by (auto simp: read8_def split: if_splits option.splits payload.splits)

lemma known32D:
  assumes "known32 s x"
  obtains b where "unwrap32 x < fresh s" and "read32 s x = Inr b"
  using assms by (cases "read32 s x") (auto simp: known32_def)

lemma known8D:
  assumes "known8 s x"
  obtains p where "unwrap8 x < fresh s" and "read8 s x = Inr p"
  using assms by (cases "read8 s x") (auto simp: known8_def)

lemma read32_frame:
  assumes "\<forall>h<fresh s. payloads s' h = payloads s h" and "unwrap32 x < fresh s"
  shows "read32 s' x = read32 s x"
  using assms by (simp add: read32_def)

lemma read8_frame:
  assumes "\<forall>h<fresh s. payloads s' h = payloads s h" and "unwrap8 x < fresh s"
  shows "read8 s' x = read8 s x"
  using assms by (simp add: read8_def)

lemma known32_frame:
  assumes "\<forall>h<fresh s. payloads s' h = payloads s h" and "fresh s \<le> fresh s'"
    and "known32 s x"
  shows "known32 s' x"
  using assms read32_frame [of s s' x] by (auto simp: known32_def)

lemma known8_frame:
  assumes "\<forall>h<fresh s. payloads s' h = payloads s h" and "fresh s \<le> fresh s'"
    and "known8 s x"
  shows "known8 s' x"
  using assms read8_frame [of s s' x] by (auto simp: known8_def)

lemma known32_new:
  assumes "payloads s h = Some (P32 w)" and "h < fresh s"
  shows "known32 s (Euint32 h)"
  using assms by (simp add: known32_def read32_def)

lemma known8_new:
  assumes "payloads s h = Some (P8 w)" and "h < fresh s"
  shows "known8 s (Euint8 h)"
  using assms by (simp add: known8_def read8_def)

lemma consistent_deploy: "consistent (deploy a src)"
  by (simp add: consistent_def deploy_def known32_def known8_def read32_def read8_def)

lemma consistent_ethBalance: "consistent (s\<lparr>ethBalance := e\<rparr>) = consistent s"
  by (simp add: consistent_def known32_def known8_def read32_def read8_def)

lemma consistent_purchasePoints:
  assumes "consistent s" and "purchasePoints s sender v = Inr (s', h)"
  shows "consistent s'"
proof -
  from assms(1) have f: "0 < fresh s" and kb: "known32 s (balances s sender)"
    by (simp_all add: consistent_def)
  from kb obtain b where b: "unwrap32 (balances s sender) < fresh s"
    "read32 s (balances s sender) = Inr b" by (rule known32D)
  from assms(2) have v: "0 < v" "unat v * 10000 < 2 ^ 256" "0 < v * 10000 div ether"
    by (auto simp: purchasePoints_def checkedMul_def ucast_rate andThen_def Let_def
        split: if_splits)
  from purchasePoints_exec [OF f b v(1,2) refl v(3)] assms(2)
  have fr: "fresh s' = fresh s + 2"
    and pl: "\<forall>h<fresh s. payloads s' h = payloads s h"
    and nb: "payloads s' (fresh s + 1) = Some (P32 (b + ucast (v * 10000 div ether)))"
    and bal: "balances s' = (balances s)(sender := Euint32 (fresh s + 1))"
    and tk: "tickets s' = tickets s"
    by auto
  have le: "fresh s \<le> fresh s'" using fr by simp
  have "known32 s' (balances s' a)" for a
  proof (cases "a = sender")
    case True
    then show ?thesis using known32_new [OF nb] fr bal by simp
  next
    case False
    then show ?thesis using known32_frame [OF pl le] assms(1) bal
      by (simp add: consistent_def)
  qed
  moreover have "known8 s' (firstNumber (tickets s' a))"
    and "known8 s' (secondNumber (tickets s' a))" for a
    using known8_frame [OF pl le] assms(1) tk by (simp_all add: consistent_def)
  ultimately show ?thesis using fr by (simp add: consistent_def)
qed


lemma purchaseTicket_Inr_proof:
  assumes "0 < fresh s" and "unwrap32 (balances s sender) < fresh s"
    and "read32 s (balances s sender) = Inr b"
    and "purchaseTicket s sender X Y pf = Inr s'"
  obtains x y p1 p2 where "X = ExternalEuint8 x" and "Y = ExternalEuint8 y"
    and "verifies pf (thisAddress s) sender"
    and "map_of (batch pf) x = Some p1" and "map_of (batch pf) y = Some p2"
proof (cases X)
  case X: (ExternalEuint8 x)
  show ?thesis
  proof (cases Y)
    case Y: (ExternalEuint8 y)
    from assms X Y have "verifies pf (thisAddress s) sender
        \<and> (\<exists>p1. map_of (batch pf) x = Some p1) \<and> (\<exists>p2. map_of (batch pf) y = Some p2)"
      by (simp add: purchaseTicket_def fromExternal_def exec_simps Let_def
          cong: andThen_weak_cong split: if_splits option.splits)
    with X Y that show ?thesis by blast
  qed
qed

lemma purchaseTicket_Inl:
  assumes "0 < fresh s" and "unwrap32 (balances s sender) < fresh s"
    and "read32 s (balances s sender) = Inr b"
    and "purchaseTicket s sender X Y pf = Inl e"
  shows "e = InvalidProof"
proof (cases X)
  case X: (ExternalEuint8 x)
  show ?thesis
  proof (cases Y)
    case Y: (ExternalEuint8 y)
    from assms X Y show ?thesis
      by (simp add: purchaseTicket_def fromExternal_def exec_simps Let_def
          cong: andThen_weak_cong split: if_splits option.splits)
  qed
qed

lemma consistent_purchaseTicket:
  assumes "consistent s" and "purchaseTicket s sender X Y pf = Inr s'"
  shows "consistent s'"
proof -
  from assms(1) have f: "0 < fresh s" and kb: "known32 s (balances s sender)"
    by (simp_all add: consistent_def)
  from kb obtain b where b: "unwrap32 (balances s sender) < fresh s"
    "read32 s (balances s sender) = Inr b" by (rule known32D)
  from f b assms(2) obtain x y p1 p2 where X: "X = ExternalEuint8 x" "Y = ExternalEuint8 y"
    and vf: "verifies pf (thisAddress s) sender"
      "map_of (batch pf) x = Some p1" "map_of (batch pf) y = Some p2"
    by (rule purchaseTicket_Inr_proof)
  from purchaseTicket_exec [OF f b vf] assms(2) X
  have fr: "fresh s' = fresh s + 4"
    and pl: "\<forall>h<fresh s. payloads s' h = payloads s h"
    and nb: "payloads s' (fresh s + 1) = Some (P32 (b - TICKET_COST))"
    and n1: "payloads s' (fresh s + 2) = Some (P8 p1)"
    and n2: "payloads s' (fresh s + 3) = Some (P8 p2)"
    and bal: "balances s' = (balances s)(sender := Euint32 (fresh s + 1))"
    and tk: "tickets s' = (tickets s)(sender :=
            \<lparr>firstNumber = Euint8 (fresh s + 2), secondNumber = Euint8 (fresh s + 3),
             exists = True\<rparr>)"
    by auto
  have le: "fresh s \<le> fresh s'" using fr by simp
  have "known32 s' (balances s' a)" for a
  proof (cases "a = sender")
    case True
    then show ?thesis using known32_new [OF nb] fr bal by simp
  next
    case False
    then show ?thesis using known32_frame [OF pl le] assms(1) bal
      by (simp add: consistent_def)
  qed
  moreover have "known8 s' (firstNumber (tickets s' a))" for a
  proof (cases "a = sender")
    case True
    then show ?thesis using known8_new [OF n1] fr tk by simp
  next
    case False
    then show ?thesis using known8_frame [OF pl le] assms(1) tk
      by (simp add: consistent_def)
  qed
  moreover have "known8 s' (secondNumber (tickets s' a))" for a
  proof (cases "a = sender")
    case True
    then show ?thesis using known8_new [OF n2] fr tk by simp
  next
    case False
    then show ?thesis using known8_frame [OF pl le] assms(1) tk
      by (simp add: consistent_def)
  qed
  ultimately show ?thesis using fr by (simp add: consistent_def)
qed

lemma playRound_Inr_exists:
  assumes "playRound s sender = Inr r"
  shows "exists (tickets s sender)"
  using assms by (simp add: playRound_def split: if_splits)

lemma consistent_playRound:
  assumes "consistent s" and "playRound s sender = Inr (s', r)"
  shows "consistent s'"
proof -
  from assms(1) have f: "0 < fresh s" and kb: "known32 s (balances s sender)"
    and k1: "known8 s (firstNumber (tickets s sender))"
    and k2: "known8 s (secondNumber (tickets s sender))"
    by (simp_all add: consistent_def)
  from kb obtain b where b: "unwrap32 (balances s sender) < fresh s"
    "read32 s (balances s sender) = Inr b" by (rule known32D)
  from k1 obtain p1 where p1: "unwrap8 (firstNumber (tickets s sender)) < fresh s"
    "read8 s (firstNumber (tickets s sender)) = Inr p1" by (rule known8D)
  from k2 obtain p2 where p2: "unwrap8 (secondNumber (tickets s sender)) < fresh s"
    "read8 s (secondNumber (tickets s sender)) = Inr p2" by (rule known8D)
  have ex: "exists (tickets s sender)" using assms(2) by (rule playRound_Inr_exists)
  from playRound_exec [OF f ex p1(1) p2(1) b(1) p1(2) p2(2) b(2) refl refl refl refl] assms(2)
  obtain w where fr: "fresh s' = fresh s + 22"
    and pl: "\<forall>h<fresh s. payloads s' h = payloads s h"
    and nb: "payloads s' (fresh s + 21) = Some (P32 w)"
    and bal: "balances s' = (balances s)(sender := Euint32 (fresh s + 21))"
    and tk: "tickets s' = (tickets s)(sender := (tickets s sender)\<lparr>exists := False\<rparr>)"
    by auto
  have le: "fresh s \<le> fresh s'" using fr by simp
  have "known32 s' (balances s' a)" for a
  proof (cases "a = sender")
    case True
    then show ?thesis using known32_new [OF nb] fr bal by simp
  next
    case False
    then show ?thesis using known32_frame [OF pl le] assms(1) bal
      by (simp add: consistent_def)
  qed
  moreover have "known8 s' (firstNumber (tickets s' a))"
    and "known8 s' (secondNumber (tickets s' a))" for a
    using known8_frame [OF pl le] assms(1) tk by (simp_all add: consistent_def)
  ultimately show ?thesis using fr by (simp add: consistent_def)
qed

lemma consistent_exec:
  assumes "consistent s"
  shows "consistent (fst (exec s sender v c))"
proof -
  let ?s = "s\<lparr>ethBalance := ethBalance s + unat v\<rparr>"
  have c: "consistent ?s" using assms by (simp add: consistent_ethBalance)
  show ?thesis
  proof (cases "dispatch ?s sender v c")
    case (Inl e)
    then show ?thesis using assms by (simp add: exec_def)
  next
    case (Inr r)
    obtain s' y where r: "r = (s', y)" by (cases r)
    have "consistent s'"
    proof (cases c)
      case PurchasePoints
      with Inr r show ?thesis
        by (auto elim!: andThenE intro: consistent_purchasePoints [OF c])
    next
      case (PurchaseTicket X Y pf)
      with Inr r show ?thesis
        by (auto elim!: andThenE intro: consistent_purchaseTicket [OF c] split: if_splits)
    next
      case PlayRound
      with Inr r show ?thesis
        by (auto elim!: andThenE intro: consistent_playRound [OF c] split: if_splits)
    next
      case (GetEncryptedBalance a)
      with Inr r c show ?thesis by (auto split: if_splits)
    next
      case (GetTicket a)
      with Inr r c show ?thesis by (auto split: if_splits prod.splits)
    next
      case (GetLastDraw a)
      with Inr r c show ?thesis by (auto split: if_splits prod.splits)
    qed
    with Inr r show ?thesis by (simp add: exec_def)
  qed
qed

lemma consistent_execAll:
  assumes "consistent s"
  shows "consistent (execAll s cs)"
  using assms
proof (induction cs arbitrary: s)
  case Nil
  then show ?case by simp
next
  case (Cons c cs)
  obtain a v k where c: "c = (a, v, k)" by (cases c)
  show ?case using Cons.IH [OF consistent_exec [OF Cons.prems]] c by simp
qed

section \<open>Facts that need no assumption on the state\<close>

lemma prim_ethBalance:
  "asEuint8 s v8 = Inr (s', h8) \<Longrightarrow> ethBalance s' = ethBalance s"
  "asEuint32 s v32 = Inr (s', h32) \<Longrightarrow> ethBalance s' = ethBalance s"
  "add32 s a32 b32 = Inr (s', h32) \<Longrightarrow> ethBalance s' = ethBalance s"
  "sub32 s a32 b32 = Inr (s', h32) \<Longrightarrow> ethBalance s' = ethBalance s"
  "add8 s a8 b8 = Inr (s', h8) \<Longrightarrow> ethBalance s' = ethBalance s"
  "rem8 s a8 k = Inr (s', h8) \<Longrightarrow> ethBalance s' = ethBalance s"
  "eq8 s a8 b8 = Inr (s', hb) \<Longrightarrow> ethBalance s' = ethBalance s"
  "select8 s c a8 b8 = Inr (s', h8) \<Longrightarrow> ethBalance s' = ethBalance s"
  "select32 s c a32 b32 = Inr (s', h32) \<Longrightarrow> ethBalance s' = ethBalance s"
  "randEuint8 s = Inr (s', h8) \<Longrightarrow> ethBalance s' = ethBalance s"
  "fromExternal s sender x pf = Inr (s', h8) \<Longrightarrow> ethBalance s' = ethBalance s"
  by (auto simp: asEuint8_def asEuint32_def add32_def sub32_def add8_def rem8_def eq8_def
      select8_def select32_def randEuint8_def fromExternal_def new_eqs alloc_fields
      elim!: andThenE split: externalEuint8.splits if_splits option.splits)

lemma purchasePoints_ethBalance:
  "purchasePoints s sender v = Inr (s', h) \<Longrightarrow> ethBalance s' = ethBalance s"
  by (auto simp: purchasePoints_def Let_def store_defs split: if_splits
      elim!: andThenE dest!: prim_ethBalance)

lemma purchaseTicket_ethBalance:
  "purchaseTicket s sender x y pf = Inr s' \<Longrightarrow> ethBalance s' = ethBalance s"
  by (auto simp: purchaseTicket_def Let_def store_defs split: if_splits
      elim!: andThenE dest!: prim_ethBalance)

lemma playRound_ethBalance:
  "playRound s sender = Inr (s', r) \<Longrightarrow> ethBalance s' = ethBalance s"
  by (auto simp: playRound_def Let_def store_defs split: if_splits
      elim!: andThenE dest!: prim_ethBalance)

lemma purchasePoints_grants:
  assumes "purchasePoints s sender v = Inr (s', b)"
  shows "balances s' sender = b \<and> granted s' sender (unwrap32 b)"
  using assms
  by (auto simp: purchasePoints_def Let_def store_defs granted_def split: if_splits
      elim!: andThenE)

lemma purchaseTicket_grants:
  assumes "purchaseTicket s sender x y pf = Inr s'"
  shows "granted s' sender (unwrap32 (balances s' sender))
       \<and> granted s' sender (unwrap8 (firstNumber (tickets s' sender)))
       \<and> granted s' sender (unwrap8 (secondNumber (tickets s' sender)))
       \<and> exists (tickets s' sender)"
  using assms
  by (auto simp: purchaseTicket_def Let_def store_defs granted_def split: if_splits
      elim!: andThenE)

lemma playRound_grants:
  assumes "playRound s sender = Inr (s', w1, w2, r)"
  shows "granted s' sender (unwrap32 (balances s' sender))
       \<and> lastResults s' sender = \<lparr>firstWinning = w1, secondWinning = w2, reward = r\<rparr>
       \<and> granted s' sender (unwrap8 w1)
       \<and> granted s' sender (unwrap8 w2)
       \<and> granted s' sender (unwrap32 r)"
  using assms
  by (auto simp: playRound_def Let_def store_defs granted_def split: if_splits
      elim!: andThenE)

lemma exec_revert: "isl (snd (exec s sender v c)) \<Longrightarrow> fst (exec s sender v c) = s"
  by (auto simp: exec_def split: sum.splits)

lemma exec_PurchasePoints:
  "exec s sender v PurchasePoints =
     (case purchasePoints (s\<lparr>ethBalance := ethBalance s + unat v\<rparr>) sender v of
        Inl e \<Rightarrow> (s, Inl e)
      | Inr (s', b) \<Rightarrow> (s', Inr (ReturnedBalance b)))"
  by (simp add: exec_def andThen_def split: sum.splits)

lemma exec_PurchaseTicket:
  "exec s sender 0 (PurchaseTicket x y pf) =
     (case purchaseTicket s sender x y pf of
        Inl e \<Rightarrow> (s, Inl e)
      | Inr s' \<Rightarrow> (s', Inr ReturnedNothing))"
  by (simp add: exec_def andThen_def split: sum.splits)

lemma exec_PlayRound:
  "exec s sender 0 PlayRound =
     (case playRound s sender of
        Inl e \<Rightarrow> (s, Inl e)
      | Inr (s', w1, w2, r) \<Rightarrow> (s', Inr (ReturnedDraw w1 w2 r)))"
  by (simp add: exec_def andThen_def split: sum.splits)

lemma exec_value_rejected:
  assumes "v \<noteq> 0" and "c \<noteq> PurchasePoints"
  shows "exec s sender v c = (s, Inl NonPayable)"
  using assms by (cases c) (simp_all add: exec_def)

section \<open>The sample run, evaluated\<close>

lemmas run_defs = exec_def purchasePoints_def purchaseTicket_def playRound_def
  fromExternal_def verifies_def checkedMul_def ucast_rate Let_def
  andThen_Inr andThen_Inl new_eqs asEuint8_def asEuint32_def add32_def sub32_def add8_def
  rem8_def eq8_def select8_def select32_def randEuint8_def read8_def read32_def readBool_def
  alloc_def store_defs ether_def TICKET_COST_def ONE_MATCH_REWARD_def TWO_MATCH_REWARD_def
  lottery_def alice_def byteSource_def picks_def buyTicket_def

lemma afterPoints_eq:
  "afterPoints =
     \<lparr>payloads = [1 \<mapsto> P32 10000, 2 \<mapsto> P32 10000], fresh = 3, grants =
     {(2, 17), (2, 4096)}, entropy = byteSource, draws = 0, thisAddress = 4096, ethBalance =
     1000000000000000000, balances = (\<lambda>_. Euint32 0)(17 := Euint32 2), tickets =
     \<lambda>_. \<lparr>firstNumber = Euint8 0, secondNumber = Euint8 0, exists =
     False\<rparr>, lastResults = \<lambda>_. \<lparr>firstWinning = Euint8 0, secondWinning
     = Euint8 0, reward = Euint32 0\<rparr>, trace = [Literal 1, Compute Add 2, Store
     (BalanceSlot 17), Grant 2 4096, Grant 2 17, Emit (PointsPurchased 17 1000000000000000000
     10000)]\<rparr>"
  by (simp add: afterPoints_def start_def deploy_def run_defs del: One_nat_def
      cong: andThen_weak_cong)

lemma afterTicket_eq:
  "afterTicket =
     \<lparr>payloads = [1 \<mapsto> P32 10000, 2 \<mapsto> P32 10000, 3 \<mapsto> P32 10, 4
     \<mapsto> P32 9990, 5 \<mapsto> P8 1, 6 \<mapsto> P8 2], fresh = 7, grants = {(6, 17),
     (5, 17), (6, 4096), (5, 4096), (4, 17), (4, 4096), (2, 17), (2, 4096)}, entropy =
     byteSource, draws = 0, thisAddress = 4096, ethBalance = 1000000000000000000, balances =
     (\<lambda>_. Euint32 0)(17 := Euint32 4), tickets = (\<lambda>_. \<lparr>firstNumber =
     Euint8 0, secondNumber = Euint8 0, exists = False\<rparr>) (17 := \<lparr>firstNumber =
     Euint8 5, secondNumber = Euint8 6, exists = True\<rparr>), lastResults = \<lambda>_.
     \<lparr>firstWinning = Euint8 0, secondWinning = Euint8 0, reward = Euint32 0\<rparr>,
     trace = [Literal 1, Compute Add 2, Store (BalanceSlot 17), Grant 2 4096, Grant 2 17,
     Emit (PointsPurchased 17 1000000000000000000 10000), Literal 3, Compute Sub 4, Admit 5,
     Admit 6, Store (BalanceSlot 17), Store (TicketFirstSlot 17), Store (TicketSecondSlot
     17), Store (TicketExistsSlot 17), Grant 4 4096, Grant 4 17, Grant 5 4096, Grant 6 4096,
     Grant 5 17, Grant 6 17, Emit (TicketPurchased 17)]\<rparr>"
  by (simp add: afterTicket_def afterPoints_eq run_defs del: One_nat_def
      cong: andThen_weak_cong)

lemma afterRound_eq:
  "afterRound =
     \<lparr>payloads = [1 \<mapsto> P32 10000, 2 \<mapsto> P32 10000, 3 \<mapsto> P32 10, 4
     \<mapsto> P32 9990, 5 \<mapsto> P8 1, 6 \<mapsto> P8 2, 7 \<mapsto> P8 1, 8 \<mapsto> P8
     0, 9 \<mapsto> P8 0, 10 \<mapsto> P8 1, 11 \<mapsto> P8 0, 12 \<mapsto> P8 1, 13
     \<mapsto> P8 1, 14 \<mapsto> P8 2, 15 \<mapsto> PBool True, 16 \<mapsto> P8 1, 17
     \<mapsto> PBool True, 18 \<mapsto> P8 1, 19 \<mapsto> P8 2, 20 \<mapsto> P32 0, 21
     \<mapsto> PBool False, 22 \<mapsto> P32 100, 23 \<mapsto> P32 0, 24 \<mapsto> P8 2, 25
     \<mapsto> PBool True, 26 \<mapsto> P32 1000, 27 \<mapsto> P32 1000, 28 \<mapsto> P32
     10990], fresh = 29, grants = {(27, 17), (14, 17), (12, 17), (27, 4096), (14, 4096), (12,
     4096), (28, 17), (28, 4096), (6, 17), (5, 17), (6, 4096), (5, 4096), (4, 17), (4, 4096),
     (2, 17), (2, 4096)}, entropy = byteSource, draws = 2, thisAddress = 4096, ethBalance =
     1000000000000000000, balances = (\<lambda>_. Euint32 0)(17 := Euint32 28), tickets =
     (\<lambda>_. \<lparr>firstNumber = Euint8 0, secondNumber = Euint8 0, exists =
     False\<rparr>) (17 := \<lparr>firstNumber = Euint8 5, secondNumber = Euint8 6, exists =
     False\<rparr>), lastResults = (\<lambda>_. \<lparr>firstWinning = Euint8 0,
     secondWinning = Euint8 0, reward = Euint32 0\<rparr>) (17 := \<lparr>firstWinning =
     Euint8 12, secondWinning = Euint8 14, reward = Euint32 27\<rparr>), trace = [Literal 1,
     Compute Add 2, Store (BalanceSlot 17), Grant 2 4096, Grant 2 17, Emit (PointsPurchased
     17 1000000000000000000 10000), Literal 3, Compute Sub 4, Admit 5, Admit 6, Store
     (BalanceSlot 17), Store (TicketFirstSlot 17), Store (TicketSecondSlot 17), Store
     (TicketExistsSlot 17), Grant 4 4096, Grant 4 17, Grant 5 4096, Grant 6 4096, Grant 5 17,
     Grant 6 17, Emit (TicketPurchased 17), Literal 7, Literal 8, Random 9, Random 10,
     Compute Rem 11, Compute Add 12, Compute Rem 13, Compute Add 14, Compute Eq 15, Compute
     Select 16, Compute Eq 17, Compute Select 18, Compute Add 19, Literal 20, Compute Eq 21,
     Literal 22, Compute Select 23, Literal 24, Compute Eq 25, Literal 26, Compute Select 27,
     Compute Add 28, Store (BalanceSlot 17), Store (TicketExistsSlot 17), Store
     (LastResultSlot 17), Grant 28 4096, Grant 28 17, Grant 12 4096, Grant 14 4096, Grant 27
     4096, Grant 12 17, Grant 14 17, Grant 27 17, Emit (RoundPlayed 17)]\<rparr>"
  by (simp add: afterRound_def afterTicket_eq run_defs del: One_nat_def
      cong: andThen_weak_cong)

lemma overdrawn_eq:
  "overdrawn =
     \<lparr>payloads = [1 \<mapsto> P32 10, 2 \<mapsto> P32 (- 10), 3 \<mapsto> P8 1, 4
     \<mapsto> P8 2], fresh = 5, grants = {(4, 17), (3, 17), (4, 4096), (3, 4096), (2, 17),
     (2, 4096)}, entropy = byteSource, draws = 0, thisAddress = 4096, ethBalance = 0,
     balances = (\<lambda>_. Euint32 0)(17 := Euint32 2), tickets = (\<lambda>_.
     \<lparr>firstNumber = Euint8 0, secondNumber = Euint8 0, exists = False\<rparr>) (17 :=
     \<lparr>firstNumber = Euint8 3, secondNumber = Euint8 4, exists = True\<rparr>),
     lastResults = \<lambda>_. \<lparr>firstWinning = Euint8 0, secondWinning = Euint8 0,
     reward = Euint32 0\<rparr>, trace = [Literal 1, Compute Sub 2, Admit 3, Admit 4, Store
     (BalanceSlot 17), Store (TicketFirstSlot 17), Store (TicketSecondSlot 17), Store
     (TicketExistsSlot 17), Grant 2 4096, Grant 2 17, Grant 3 4096, Grant 4 4096, Grant 3 17,
     Grant 4 17, Emit (TicketPurchased 17)]\<rparr>"
  by (simp add: overdrawn_def start_def deploy_def run_defs del: One_nat_def
      cong: andThen_weak_cong)

lemma overdrawnRound_eq:
  "overdrawnRound =
     \<lparr>payloads = [1 \<mapsto> P32 10, 2 \<mapsto> P32 (- 10), 3 \<mapsto> P8 1, 4
     \<mapsto> P8 2, 5 \<mapsto> P8 1, 6 \<mapsto> P8 0, 7 \<mapsto> P8 0, 8 \<mapsto> P8 1,
     9 \<mapsto> P8 0, 10 \<mapsto> P8 1, 11 \<mapsto> P8 1, 12 \<mapsto> P8 2, 13 \<mapsto>
     PBool True, 14 \<mapsto> P8 1, 15 \<mapsto> PBool True, 16 \<mapsto> P8 1, 17 \<mapsto>
     P8 2, 18 \<mapsto> P32 0, 19 \<mapsto> PBool False, 20 \<mapsto> P32 100, 21 \<mapsto>
     P32 0, 22 \<mapsto> P8 2, 23 \<mapsto> PBool True, 24 \<mapsto> P32 1000, 25 \<mapsto>
     P32 1000, 26 \<mapsto> P32 990], fresh = 27, grants = {(25, 17), (12, 17), (10, 17),
     (25, 4096), (12, 4096), (10, 4096), (26, 17), (26, 4096), (4, 17), (3, 17), (4, 4096),
     (3, 4096), (2, 17), (2, 4096)}, entropy = byteSource, draws = 2, thisAddress = 4096,
     ethBalance = 0, balances = (\<lambda>_. Euint32 0)(17 := Euint32 26), tickets =
     (\<lambda>_. \<lparr>firstNumber = Euint8 0, secondNumber = Euint8 0, exists =
     False\<rparr>) (17 := \<lparr>firstNumber = Euint8 3, secondNumber = Euint8 4, exists =
     False\<rparr>), lastResults = (\<lambda>_. \<lparr>firstWinning = Euint8 0,
     secondWinning = Euint8 0, reward = Euint32 0\<rparr>) (17 := \<lparr>firstWinning =
     Euint8 10, secondWinning = Euint8 12, reward = Euint32 25\<rparr>), trace = [Literal 1,
     Compute Sub 2, Admit 3, Admit 4, Store (BalanceSlot 17), Store (TicketFirstSlot 17),
     Store (TicketSecondSlot 17), Store (TicketExistsSlot 17), Grant 2 4096, Grant 2 17,
     Grant 3 4096, Grant 4 4096, Grant 3 17, Grant 4 17, Emit (TicketPurchased 17), Literal
     5, Literal 6, Random 7, Random 8, Compute Rem 9, Compute Add 10, Compute Rem 11, Compute
     Add 12, Compute Eq 13, Compute Select 14, Compute Eq 15, Compute Select 16, Compute Add
     17, Literal 18, Compute Eq 19, Literal 20, Compute Select 21, Literal 22, Compute Eq 23,
     Literal 24, Compute Select 25, Compute Add 26, Store (BalanceSlot 17), Store
     (TicketExistsSlot 17), Store (LastResultSlot 17), Grant 26 4096, Grant 26 17, Grant 10
     4096, Grant 12 4096, Grant 25 4096, Grant 10 17, Grant 12 17, Grant 25 17, Emit
     (RoundPlayed 17)]\<rparr>"
  by (simp add: overdrawnRound_def overdrawn_eq run_defs del: One_nat_def
      cong: andThen_weak_cong)

lemma sample_returns:
  "snd (exec start alice ether PurchasePoints) = Inr (ReturnedBalance (Euint32 2))"
  "snd (exec afterPoints alice 0 buyTicket) = Inr ReturnedNothing"
  "snd (exec afterTicket alice 0 PlayRound) =
     Inr (ReturnedDraw (Euint8 12) (Euint8 14) (Euint32 27))"
  "snd (exec start alice 0 buyTicket) = Inr ReturnedNothing"
  "snd (exec overdrawn alice 0 PlayRound) =
     Inr (ReturnedDraw (Euint8 10) (Euint8 12) (Euint32 25))"
  by (simp_all add: start_def deploy_def afterPoints_eq afterTicket_eq overdrawn_eq run_defs
      del: One_nat_def cong: andThen_weak_cong)

lemma consistent_sample:
  "consistent start" "consistent afterPoints" "consistent afterTicket"
  "consistent overdrawn"
  by (simp_all add: start_def afterPoints_def afterTicket_def overdrawn_def
      consistent_deploy consistent_exec)

section \<open>Invariants of the reachable states\<close>

text \<open>
  Whatever calls the deployed contract receives, its state stays consistent and every
  stored handle stays covered by the two grants.
\<close>

lemma consistent_reachable: "consistent (execAll (deploy a src) cs)"
  by (rule consistent_execAll) (rule consistent_deploy)

lemma covered_deploy: "covered (deploy a src)"
  by (simp add: covered_def deploy_def)

lemma covered_ethBalance: "covered (s\<lparr>ethBalance := e\<rparr>) = covered s"
  by (simp add: covered_def granted_def)

lemma covered_step:
  assumes cov: "covered s"
    and g: "grants s \<subseteq> grants s'" and th: "thisAddress s' = thisAddress s"
    and bal: "\<forall>a. balances s' a = balances s a
               \<or> (a = sender \<and> granted s' sender (unwrap32 (balances s' a)))"
    and t1: "\<forall>a. firstNumber (tickets s' a) = firstNumber (tickets s a)
               \<or> (a = sender \<and> granted s' sender (unwrap8 (firstNumber (tickets s' a))))"
    and t2: "\<forall>a. secondNumber (tickets s' a) = secondNumber (tickets s a)
               \<or> (a = sender \<and> granted s' sender (unwrap8 (secondNumber (tickets s' a))))"
    and l: "\<forall>a. lastResults s' a = lastResults s a
               \<or> (a = sender
                   \<and> granted s' sender (unwrap8 (firstWinning (lastResults s' a)))
                   \<and> granted s' sender (unwrap8 (secondWinning (lastResults s' a)))
                   \<and> granted s' sender (unwrap32 (reward (lastResults s' a))))"
  shows "covered s'"
proof -
  have mono: "granted s a h \<Longrightarrow> granted s' a h" for a h
    using g th by (auto simp: granted_def)
  show ?thesis
    unfolding covered_def
  proof (intro allI conjI)
    fix a
    show "unwrap32 (balances s' a) = 0 \<or> granted s' a (unwrap32 (balances s' a))"
      using cov bal mono unfolding covered_def by metis
    show "unwrap8 (firstNumber (tickets s' a)) = 0
        \<or> granted s' a (unwrap8 (firstNumber (tickets s' a)))"
      using cov t1 mono unfolding covered_def by metis
    show "unwrap8 (secondNumber (tickets s' a)) = 0
        \<or> granted s' a (unwrap8 (secondNumber (tickets s' a)))"
      using cov t2 mono unfolding covered_def by metis
    show "unwrap8 (firstWinning (lastResults s' a)) = 0
        \<or> granted s' a (unwrap8 (firstWinning (lastResults s' a)))"
      using cov l mono unfolding covered_def by metis
    show "unwrap8 (secondWinning (lastResults s' a)) = 0
        \<or> granted s' a (unwrap8 (secondWinning (lastResults s' a)))"
      using cov l mono unfolding covered_def by metis
    show "unwrap32 (reward (lastResults s' a)) = 0
        \<or> granted s' a (unwrap32 (reward (lastResults s' a)))"
      using cov l mono unfolding covered_def by metis
  qed
qed


lemma prim_storage:
  "asEuint8 s v8 = Inr (s', h8) \<Longrightarrow>
     grants s' = grants s \<and> thisAddress s' = thisAddress s \<and> balances s' = balances s
     \<and> tickets s' = tickets s \<and> lastResults s' = lastResults s"
  "asEuint32 s v32 = Inr (s', h32) \<Longrightarrow>
     grants s' = grants s \<and> thisAddress s' = thisAddress s \<and> balances s' = balances s
     \<and> tickets s' = tickets s \<and> lastResults s' = lastResults s"
  "add32 s a32 b32 = Inr (s', h32) \<Longrightarrow>
     grants s' = grants s \<and> thisAddress s' = thisAddress s \<and> balances s' = balances s
     \<and> tickets s' = tickets s \<and> lastResults s' = lastResults s"
  "sub32 s a32 b32 = Inr (s', h32) \<Longrightarrow>
     grants s' = grants s \<and> thisAddress s' = thisAddress s \<and> balances s' = balances s
     \<and> tickets s' = tickets s \<and> lastResults s' = lastResults s"
  "add8 s a8 b8 = Inr (s', h8) \<Longrightarrow>
     grants s' = grants s \<and> thisAddress s' = thisAddress s \<and> balances s' = balances s
     \<and> tickets s' = tickets s \<and> lastResults s' = lastResults s"
  "rem8 s a8 k = Inr (s', h8) \<Longrightarrow>
     grants s' = grants s \<and> thisAddress s' = thisAddress s \<and> balances s' = balances s
     \<and> tickets s' = tickets s \<and> lastResults s' = lastResults s"
  "eq8 s a8 b8 = Inr (s', hb) \<Longrightarrow>
     grants s' = grants s \<and> thisAddress s' = thisAddress s \<and> balances s' = balances s
     \<and> tickets s' = tickets s \<and> lastResults s' = lastResults s"
  "select8 s c a8 b8 = Inr (s', h8) \<Longrightarrow>
     grants s' = grants s \<and> thisAddress s' = thisAddress s \<and> balances s' = balances s
     \<and> tickets s' = tickets s \<and> lastResults s' = lastResults s"
  "select32 s c a32 b32 = Inr (s', h32) \<Longrightarrow>
     grants s' = grants s \<and> thisAddress s' = thisAddress s \<and> balances s' = balances s
     \<and> tickets s' = tickets s \<and> lastResults s' = lastResults s"
  "randEuint8 s = Inr (s', h8) \<Longrightarrow>
     grants s' = grants s \<and> thisAddress s' = thisAddress s \<and> balances s' = balances s
     \<and> tickets s' = tickets s \<and> lastResults s' = lastResults s"
  "fromExternal s sender x pf = Inr (s', h8) \<Longrightarrow>
     grants s' = grants s \<and> thisAddress s' = thisAddress s \<and> balances s' = balances s
     \<and> tickets s' = tickets s \<and> lastResults s' = lastResults s"
  by (auto simp: asEuint8_def asEuint32_def add32_def sub32_def add8_def rem8_def eq8_def
      select8_def select32_def randEuint8_def fromExternal_def new_eqs alloc_fields
      elim!: andThenE split: externalEuint8.splits if_splits option.splits)

lemma purchasePoints_storage:
  assumes "purchasePoints s sender v = Inr (s', b)"
  shows "grants s \<subseteq> grants s' \<and> thisAddress s' = thisAddress s
       \<and> (\<forall>a. a \<noteq> sender \<longrightarrow> balances s' a = balances s a)
       \<and> tickets s' = tickets s \<and> lastResults s' = lastResults s"
  using assms
  by (auto simp: purchasePoints_def Let_def store_defs split: if_splits
      elim!: andThenE dest!: prim_storage)

lemma purchaseTicket_storage:
  assumes "purchaseTicket s sender x y pf = Inr s'"
  shows "grants s \<subseteq> grants s' \<and> thisAddress s' = thisAddress s
       \<and> (\<forall>a. a \<noteq> sender \<longrightarrow> balances s' a = balances s a)
       \<and> (\<forall>a. a \<noteq> sender \<longrightarrow> tickets s' a = tickets s a)
       \<and> lastResults s' = lastResults s"
  using assms
  by (auto simp: purchaseTicket_def Let_def store_defs split: if_splits
      elim!: andThenE dest!: prim_storage)

lemma playRound_storage:
  assumes "playRound s sender = Inr (s', r)"
  shows "grants s \<subseteq> grants s' \<and> thisAddress s' = thisAddress s
       \<and> (\<forall>a. a \<noteq> sender \<longrightarrow> balances s' a = balances s a)
       \<and> (\<forall>a. firstNumber (tickets s' a) = firstNumber (tickets s a)
              \<and> secondNumber (tickets s' a) = secondNumber (tickets s a))
       \<and> (\<forall>a. a \<noteq> sender \<longrightarrow> lastResults s' a = lastResults s a)"
  using assms
  by (auto simp: playRound_def Let_def store_defs split: if_splits
      elim!: andThenE dest!: prim_storage)

lemma covered_purchasePoints:
  assumes "covered s" and "purchasePoints s sender v = Inr (s', b)"
  shows "covered s'"
  using assms(1)
proof (rule covered_step [where sender = sender])
  note f = purchasePoints_storage [OF assms(2)]
  note g = purchasePoints_grants [OF assms(2)]
  show "grants s \<subseteq> grants s'" "thisAddress s' = thisAddress s" using f by simp_all
  show "\<forall>a. balances s' a = balances s a
               \<or> (a = sender \<and> granted s' sender (unwrap32 (balances s' a)))"
    using f g by auto
  show "\<forall>a. firstNumber (tickets s' a) = firstNumber (tickets s a)
               \<or> (a = sender \<and> granted s' sender (unwrap8 (firstNumber (tickets s' a))))"
    "\<forall>a. secondNumber (tickets s' a) = secondNumber (tickets s a)
               \<or> (a = sender \<and> granted s' sender (unwrap8 (secondNumber (tickets s' a))))"
    "\<forall>a. lastResults s' a = lastResults s a
               \<or> (a = sender
                   \<and> granted s' sender (unwrap8 (firstWinning (lastResults s' a)))
                   \<and> granted s' sender (unwrap8 (secondWinning (lastResults s' a)))
                   \<and> granted s' sender (unwrap32 (reward (lastResults s' a))))"
    using f by simp_all
qed

lemma covered_purchaseTicket:
  assumes "covered s" and "purchaseTicket s sender x y pf = Inr s'"
  shows "covered s'"
  using assms(1)
proof (rule covered_step [where sender = sender])
  note f = purchaseTicket_storage [OF assms(2)]
  note g = purchaseTicket_grants [OF assms(2)]
  show "grants s \<subseteq> grants s'" "thisAddress s' = thisAddress s" using f by simp_all
  show "\<forall>a. balances s' a = balances s a
               \<or> (a = sender \<and> granted s' sender (unwrap32 (balances s' a)))"
    using f g by auto
  show "\<forall>a. firstNumber (tickets s' a) = firstNumber (tickets s a)
               \<or> (a = sender \<and> granted s' sender (unwrap8 (firstNumber (tickets s' a))))"
    using f g by auto
  show "\<forall>a. secondNumber (tickets s' a) = secondNumber (tickets s a)
               \<or> (a = sender \<and> granted s' sender (unwrap8 (secondNumber (tickets s' a))))"
    using f g by auto
  show "\<forall>a. lastResults s' a = lastResults s a
               \<or> (a = sender
                   \<and> granted s' sender (unwrap8 (firstWinning (lastResults s' a)))
                   \<and> granted s' sender (unwrap8 (secondWinning (lastResults s' a)))
                   \<and> granted s' sender (unwrap32 (reward (lastResults s' a))))"
    using f by simp
qed

lemma covered_playRound:
  assumes "covered s" and "playRound s sender = Inr (s', w1, w2, r)"
  shows "covered s'"
  using assms(1)
proof (rule covered_step [where sender = sender])
  note f = playRound_storage [OF assms(2)]
  note g = playRound_grants [OF assms(2)]
  show "grants s \<subseteq> grants s'" "thisAddress s' = thisAddress s" using f by simp_all
  show "\<forall>a. balances s' a = balances s a
               \<or> (a = sender \<and> granted s' sender (unwrap32 (balances s' a)))"
    using f g by auto
  show "\<forall>a. firstNumber (tickets s' a) = firstNumber (tickets s a)
               \<or> (a = sender \<and> granted s' sender (unwrap8 (firstNumber (tickets s' a))))"
    "\<forall>a. secondNumber (tickets s' a) = secondNumber (tickets s a)
               \<or> (a = sender \<and> granted s' sender (unwrap8 (secondNumber (tickets s' a))))"
    using f by simp_all
  show "\<forall>a. lastResults s' a = lastResults s a
               \<or> (a = sender
                   \<and> granted s' sender (unwrap8 (firstWinning (lastResults s' a)))
                   \<and> granted s' sender (unwrap8 (secondWinning (lastResults s' a)))
                   \<and> granted s' sender (unwrap32 (reward (lastResults s' a))))"
  proof
    fix a
    show "lastResults s' a = lastResults s a
               \<or> (a = sender
                   \<and> granted s' sender (unwrap8 (firstWinning (lastResults s' a)))
                   \<and> granted s' sender (unwrap8 (secondWinning (lastResults s' a)))
                   \<and> granted s' sender (unwrap32 (reward (lastResults s' a))))"
      using f g by (cases "a = sender") simp_all
  qed
qed

lemma covered_exec:
  assumes "covered s"
  shows "covered (fst (exec s sender v c))"
proof -
  let ?s = "s\<lparr>ethBalance := ethBalance s + unat v\<rparr>"
  have c: "covered ?s" using assms by (simp add: covered_ethBalance)
  show ?thesis
  proof (cases "dispatch ?s sender v c")
    case (Inl e)
    then show ?thesis using assms by (simp add: exec_def)
  next
    case (Inr r)
    obtain s' y where r: "r = (s', y)" by (cases r)
    have "covered s'"
    proof (cases c)
      case PurchasePoints
      with Inr r show ?thesis
        by (auto elim!: andThenE intro: covered_purchasePoints [OF c])
    next
      case (PurchaseTicket X Y pf)
      with Inr r show ?thesis
        by (auto elim!: andThenE intro: covered_purchaseTicket [OF c] split: if_splits)
    next
      case PlayRound
      with Inr r show ?thesis
        by (auto elim!: andThenE intro: covered_playRound [OF c] split: if_splits)
    next
      case (GetEncryptedBalance a)
      with Inr r c show ?thesis by (auto split: if_splits)
    next
      case (GetTicket a)
      with Inr r c show ?thesis by (auto split: if_splits prod.splits)
    next
      case (GetLastDraw a)
      with Inr r c show ?thesis by (auto split: if_splits prod.splits)
    qed
    with Inr r show ?thesis by (simp add: exec_def)
  qed
qed

lemma covered_reachable: "covered (execAll (deploy a src) cs)"
proof -
  have "covered s \<Longrightarrow> covered (execAll s cs)" for s
  proof (induction cs arbitrary: s)
    case Nil
    then show ?case by simp
  next
    case (Cons c cs)
    obtain a v k where c: "c = (a, v, k)" by (cases c)
    show ?case using Cons.IH [OF covered_exec [OF Cons.prems]] c by simp
  qed
  then show ?thesis using covered_deploy by blast
qed

section \<open>Properties of the contract\<close>

lemma exec_ethBalance:
  "ethBalance (fst (exec s sender v c)) =
     (if isl (snd (exec s sender v c)) then ethBalance s else ethBalance s + unat v)"
proof (cases c)
  case PurchasePoints
  then show ?thesis
    by (auto simp: exec_PurchasePoints split: sum.splits dest: purchasePoints_ethBalance)
next
  case (PurchaseTicket x y pf)
  then show ?thesis
    by (auto simp: exec_def andThen_def split: sum.splits dest: purchaseTicket_ethBalance)
next
  case PlayRound
  then show ?thesis
    by (auto simp: exec_def andThen_def split: sum.splits dest: playRound_ethBalance)
next
  case (GetEncryptedBalance a)
  then show ?thesis by (simp add: exec_def)
next
  case (GetTicket a)
  then show ?thesis by (simp add: exec_def split: prod.splits)
next
  case (GetLastDraw a)
  then show ?thesis by (simp add: exec_def split: prod.splits)
qed

text \<open>
  Claim C1. Whenever \<open>purchasePoints\<close>, \<open>purchaseTicket\<close> or \<open>playRound\<close> returns
  successfully, every handle the call has written into the caller's account carries the
  grant to the contract itself and the grant to the caller in the state the call leaves:
  the new balance handle after each of the three, the two pick handles after
  \<open>purchaseTicket\<close>, and the two winning-number handles and the reward handle after
  \<open>playRound\<close>.
\<close>

theorem grants_cover_written_handles:
  "(snd (exec s1 a1 v1 PurchasePoints) = Inr r1 \<longrightarrow>
      (let s' = fst (exec s1 a1 v1 PurchasePoints) in
       r1 = ReturnedBalance (balances s' a1)
       \<and> granted s' a1 (unwrap32 (balances s' a1))))
   \<and> (snd (exec s2 a2 v2 (PurchaseTicket x y pf)) = Inr r2 \<longrightarrow>
      (let s' = fst (exec s2 a2 v2 (PurchaseTicket x y pf)) in
       granted s' a2 (unwrap32 (balances s' a2))
       \<and> granted s' a2 (unwrap8 (firstNumber (tickets s' a2)))
       \<and> granted s' a2 (unwrap8 (secondNumber (tickets s' a2)))))
   \<and> (snd (exec s3 a3 v3 PlayRound) = Inr r3 \<longrightarrow>
      (let s' = fst (exec s3 a3 v3 PlayRound) in
       granted s' a3 (unwrap32 (balances s' a3))
       \<and> r3 = ReturnedDraw (firstWinning (lastResults s' a3))
              (secondWinning (lastResults s' a3)) (reward (lastResults s' a3))
       \<and> granted s' a3 (unwrap8 (firstWinning (lastResults s' a3)))
       \<and> granted s' a3 (unwrap8 (secondWinning (lastResults s' a3)))
       \<and> granted s' a3 (unwrap32 (reward (lastResults s' a3)))))"
proof (intro conjI impI)
  assume "snd (exec s1 a1 v1 PurchasePoints) = Inr r1"
  then show "let s' = fst (exec s1 a1 v1 PurchasePoints) in
       r1 = ReturnedBalance (balances s' a1)
       \<and> granted s' a1 (unwrap32 (balances s' a1))"
    by (auto simp: exec_PurchasePoints split: sum.splits dest: purchasePoints_grants)
next
  assume a: "snd (exec s2 a2 v2 (PurchaseTicket x y pf)) = Inr r2"
  then have "v2 = 0" using exec_value_rejected [of v2 "PurchaseTicket x y pf" s2 a2]
    by (cases "v2 = 0") simp_all
  with a show "let s' = fst (exec s2 a2 v2 (PurchaseTicket x y pf)) in
       granted s' a2 (unwrap32 (balances s' a2))
       \<and> granted s' a2 (unwrap8 (firstNumber (tickets s' a2)))
       \<and> granted s' a2 (unwrap8 (secondNumber (tickets s' a2)))"
    by (auto simp: exec_PurchaseTicket split: sum.splits dest: purchaseTicket_grants)
next
  assume a: "snd (exec s3 a3 v3 PlayRound) = Inr r3"
  then have "v3 = 0" using exec_value_rejected [of v3 PlayRound s3 a3]
    by (cases "v3 = 0") simp_all
  with a show "let s' = fst (exec s3 a3 v3 PlayRound) in
       granted s' a3 (unwrap32 (balances s' a3))
       \<and> r3 = ReturnedDraw (firstWinning (lastResults s' a3))
              (secondWinning (lastResults s' a3)) (reward (lastResults s' a3))
       \<and> granted s' a3 (unwrap8 (firstWinning (lastResults s' a3)))
       \<and> granted s' a3 (unwrap8 (secondWinning (lastResults s' a3)))
       \<and> granted s' a3 (unwrap32 (reward (lastResults s' a3)))"
    by (auto simp: exec_PlayRound split: sum.splits dest: playRound_grants)
qed

theorem grants_cover_written_handles_witness:
  "snd (exec start alice ether PurchasePoints) = Inr (ReturnedBalance (Euint32 2))
   \<and> balances afterPoints alice = Euint32 2 \<and> granted afterPoints alice 2
   \<and> snd (exec afterPoints alice 0 buyTicket) = Inr ReturnedNothing
   \<and> balances afterTicket alice = Euint32 4 \<and> granted afterTicket alice 4
   \<and> tickets afterTicket alice =
         \<lparr>firstNumber = Euint8 5, secondNumber = Euint8 6, exists = True\<rparr>
   \<and> granted afterTicket alice 5 \<and> granted afterTicket alice 6
   \<and> snd (exec afterTicket alice 0 PlayRound) =
         Inr (ReturnedDraw (Euint8 12) (Euint8 14) (Euint32 27))
   \<and> balances afterRound alice = Euint32 28 \<and> granted afterRound alice 28
   \<and> granted afterRound alice 12 \<and> granted afterRound alice 14
   \<and> granted afterRound alice 27"
proof -
  have b: "balances afterPoints alice = Euint32 2" "balances afterTicket alice = Euint32 4"
    "tickets afterTicket alice =
       \<lparr>firstNumber = Euint8 5, secondNumber = Euint8 6, exists = True\<rparr>"
    "balances afterRound alice = Euint32 28"
    "lastResults afterRound alice =
       \<lparr>firstWinning = Euint8 12, secondWinning = Euint8 14, reward = Euint32 27\<rparr>"
    by (simp_all add: afterPoints_eq afterTicket_eq afterRound_eq alice_def)
  have f: "fst (exec start alice ether PurchasePoints) = afterPoints"
    "fst (exec afterPoints alice 0
       (PurchaseTicket (ExternalEuint8 7) (ExternalEuint8 8) picks)) = afterTicket"
    "fst (exec afterTicket alice 0 PlayRound) = afterRound"
    by (simp_all add: afterPoints_def afterTicket_def afterRound_def buyTicket_def)
  have r: "snd (exec afterPoints alice 0
       (PurchaseTicket (ExternalEuint8 7) (ExternalEuint8 8) picks)) = Inr ReturnedNothing"
    using sample_returns(2) by (simp add: buyTicket_def)
  from grants_cover_written_handles [of start alice ether "ReturnedBalance (Euint32 2)"
      afterPoints alice 0 "ExternalEuint8 7" "ExternalEuint8 8" picks ReturnedNothing
      afterTicket alice 0 "ReturnedDraw (Euint8 12) (Euint8 14) (Euint32 27)"]
    sample_returns(1-3) r b
  show ?thesis
    by (simp add: Let_def f)
qed

text \<open>
  Claim C5. For a caller whose ticket is not active, \<open>playRound\<close> fails with
  \<open>NoActiveTicket\<close>, and the call leaves the whole state as it was: balance, ticket,
  last draw, the engine's handles and grants, and the randomness source, of which no byte
  has been drawn.
\<close>

theorem playRound_requires_ticket:
  assumes "\<not> exists (tickets s sender)"
  shows "playRound s sender = Inl NoActiveTicket
       \<and> exec s sender 0 PlayRound = (s, Inl NoActiveTicket)
       \<and> fst (exec s sender v PlayRound) = s"
proof -
  have p: "playRound t sender = Inl NoActiveTicket" if "\<not> exists (tickets t sender)" for t
    using that by (simp add: playRound_def)
  have e: "exec s sender 0 PlayRound = (s, Inl NoActiveTicket)"
    using p [OF assms] by (simp add: exec_PlayRound)
  have "fst (exec s sender v PlayRound) = s"
  proof (cases "v = 0")
    case True
    then show ?thesis using e by simp
  next
    case False
    then show ?thesis by (simp add: exec_value_rejected)
  qed
  with e p [OF assms] show ?thesis by simp
qed

theorem playRound_requires_ticket_witness:
  "\<not> exists (tickets afterRound alice)
   \<and> playRound afterRound alice = Inl NoActiveTicket
   \<and> exec afterRound alice 0 PlayRound = (afterRound, Inl NoActiveTicket)
   \<and> fst (exec afterRound alice 5 PlayRound) = afterRound"
proof -
  have h: "\<not> exists (tickets afterRound alice)"
    by (simp add: afterRound_eq alice_def)
  from playRound_requires_ticket [OF h, of 5] h show ?thesis by simp
qed

text \<open>
  Claim C10. The ether held by the contract never decreases: not across one call, whatever
  the call, the caller and the value sent, and not across any sequence of calls. No entry
  point sends ether out.
\<close>

theorem ether_never_leaves:
  "ethBalance s \<le> ethBalance (execAll s cs)
   \<and> ethBalance s \<le> ethBalance (fst (exec s sender v c))"
proof
  show "ethBalance s \<le> ethBalance (execAll s cs)"
  proof (induction cs arbitrary: s)
    case Nil
    show ?case by simp
  next
    case (Cons c cs)
    obtain a v k where c: "c = (a, v, k)" by (cases c)
    have "ethBalance s \<le> ethBalance (fst (exec s a v k))"
      by (simp add: exec_ethBalance)
    also have "\<dots> \<le> ethBalance (execAll (fst (exec s a v k)) cs)"
      by (rule Cons.IH)
    finally show ?case using c by simp
  qed
  show "ethBalance s \<le> ethBalance (fst (exec s sender v c))"
    by (simp add: exec_ethBalance)
qed


theorem ether_never_leaves_witness:
  "ethBalance start = 0 \<and> ethBalance afterRound = 1000000000000000000
   \<and> ethBalance start \<le> ethBalance (execAll start
         [(alice, ether, PurchasePoints), (alice, 0, buyTicket), (alice, 0, PlayRound)])"
  using ether_never_leaves [of start
      "[(alice, ether, PurchasePoints), (alice, 0, buyTicket), (alice, 0, PlayRound)]"
      alice 0 PlayRound]
  by (simp add: afterRound_eq start_def deploy_def)

subsection \<open>Buying points\<close>

lemma read_ethBalance:
  "read8 (s\<lparr>ethBalance := e\<rparr>) x = read8 s x"
  "read32 (s\<lparr>ethBalance := e\<rparr>) y = read32 s y"
  by (simp_all add: read8_def read32_def)

lemma clear32_Some:
  assumes "clear32 s x = Some n"
  obtains w where "read32 s x = Inr w" and "unat w = n"
  using assms by (cases "read32 s x") (auto simp: clear32_def)

lemma clear8_Some:
  assumes "clear8 s x = Some n"
  obtains w where "read8 s x = Inr w" and "unat w = n"
  using assms by (cases "read8 s x") (auto simp: clear8_def)

lemma points_unat:
  assumes "unat (v :: uint256) * 10000 < 2 ^ 256"
  shows "unat (v * 10000 div ether) = unat v * 10000 div 10 ^ 18"
proof -
  have "unat (v * 10000) = unat v * 10000"
    using assms unat_mult_lem [of v 10000] by simp
  then show ?thesis by (simp add: unat_div ether_def)
qed

lemma points_positive:
  assumes "unat (v :: uint256) * 10000 < 2 ^ 256"
  shows "0 < v * 10000 div ether \<longleftrightarrow> 0 < unat v * 10000 div 10 ^ 18"
  using points_unat [OF assms] by (simp add: word_less_nat_alt)

lemma purchasePoints_fails:
  "v = 0 \<Longrightarrow> purchasePoints s sender v = Inl ZeroPayment"
  "0 < v \<Longrightarrow> 2 ^ 256 \<le> unat v * 10000 \<Longrightarrow> purchasePoints s sender v = Inl Panic"
  "0 < v \<Longrightarrow> unat v * 10000 < 2 ^ 256 \<Longrightarrow> unat v * 10000 div 10 ^ 18 = 0
     \<Longrightarrow> purchasePoints s sender v = Inl BelowMinimum"
  using points_positive [of v]
  by (simp_all add: purchasePoints_def checkedMul_def ucast_rate andThen_def Let_def)

lemma purchasePoints_succeeds:
  assumes c: "consistent s" and n: "clearBalance s sender = Some n"
    and v: "unat v * 10000 < 2 ^ 256" and p: "0 < unat v * 10000 div 10 ^ 18"
  defines "s' \<equiv> fst (exec s sender v PurchasePoints)"
  shows "snd (exec s sender v PurchasePoints) = Inr (ReturnedBalance (balances s' sender))"
    and "clear32 s' (Euint32 (fresh s)) = Some (unat v * 10000 div 10 ^ 18 mod 2 ^ 32)"
    and "clearBalance s' sender =
           Some ((n + unat v * 10000 div 10 ^ 18 mod 2 ^ 32) mod 2 ^ 32)"
    and "ethBalance s' = ethBalance s + unat v"
proof -
  let ?t = "s\<lparr>ethBalance := ethBalance s + unat v\<rparr>"
  from n obtain b where b: "read32 s (balances s sender) = Inr b" "unat b = n"
    unfolding clearBalance_def by (rule clear32_Some)
  from c have f: "0 < fresh ?t" and kb: "unwrap32 (balances ?t sender) < fresh ?t"
    by (simp_all add: consistent_def known32_def)
  have rb: "read32 ?t (balances ?t sender) = Inr b" using b by (simp add: read_ethBalance)
  have v0: "0 < v" using p by (cases "v = 0") (simp_all add: word_neq_0_conv)
  have pp: "0 < v * 10000 div ether" using p points_positive [OF v] by simp
  from purchasePoints_exec [OF f kb rb v0 v refl pp]
  obtain t' where t': "purchasePoints ?t sender v = Inr (t', Euint32 (fresh s + 1))"
    "payloads t' (fresh s) = Some (P32 (ucast (v * 10000 div ether)))"
    "payloads t' (fresh s + 1) = Some (P32 (b + ucast (v * 10000 div ether)))"
    "balances t' = (balances s)(sender := Euint32 (fresh s + 1))"
    "ethBalance t' = ethBalance s + unat v"
    by auto
  have e: "exec s sender v PurchasePoints = (t', Inr (ReturnedBalance (Euint32 (fresh s + 1))))"
    using t'(1) by (simp add: exec_PurchasePoints)
  then have s': "s' = t'" by (simp add: s'_def)
  have u: "unat (ucast (v * 10000 div ether) :: uint32) = unat v * 10000 div 10 ^ 18 mod 2 ^ 32"
    using points_unat [OF v] by (simp add: unsigned_ucast_eq take_bit_eq_mod)
  show "snd (exec s sender v PurchasePoints) = Inr (ReturnedBalance (balances s' sender))"
    using e s' t'(4) by simp
  show "clear32 s' (Euint32 (fresh s)) = Some (unat v * 10000 div 10 ^ 18 mod 2 ^ 32)"
    using s' t'(2) u f by (simp add: clear32_def read32_def)
  show "clearBalance s' sender =
           Some ((n + unat v * 10000 div 10 ^ 18 mod 2 ^ 32) mod 2 ^ 32)"
    using s' t'(3,4) u b(2)
    by (simp add: clearBalance_def clear32_def read32_def unat_word_ariths)
  show "ethBalance s' = ethBalance s + unat v" using s' t'(5) by simp
qed


lemma start_balance: "clearBalance start alice = Some 0"
  by (simp add: clearBalance_def clear32_def read32_def start_def deploy_def)

text \<open>
  Claim C2, as amended. In a consistent state where the caller's balance decrypts to \<open>n\<close>,
  \<open>purchasePoints\<close> with value \<open>v\<close> fails with \<open>ZeroPayment\<close> when \<open>v = 0\<close> and with
  \<open>BelowMinimum\<close> when \<open>floor (v * 10000 / 1 ether) = 0\<close>, and leaves the state unchanged in
  both cases; when \<open>v * 10000\<close> does not fit 256 bits the checked multiplication panics and
  the call reverts; otherwise the call succeeds and the new balance decrypts to
  \<open>(n + floor (v * 10000 / 1 ether)) mod 2 ^ 32\<close>, which is \<open>n + floor (v * 10000 / 1 ether)\<close>
  exactly when that sum is below \<open>2 ^ 32\<close>. A balance never written counts as zero.
\<close>

theorem purchasePoints_balance:
  assumes "consistent s" and "clearBalance s sender = Some n"
  shows "(v = 0 \<longrightarrow> exec s sender v PurchasePoints = (s, Inl ZeroPayment))
     \<and> (0 < v \<and> unat v * 10000 < 2 ^ 256 \<and> unat v * 10000 div 10 ^ 18 = 0 \<longrightarrow>
          exec s sender v PurchasePoints = (s, Inl BelowMinimum))
     \<and> (2 ^ 256 \<le> unat v * 10000 \<longrightarrow> exec s sender v PurchasePoints = (s, Inl Panic))
     \<and> (unat v * 10000 < 2 ^ 256 \<and> 0 < unat v * 10000 div 10 ^ 18 \<longrightarrow>
          snd (exec s sender v PurchasePoints) =
            Inr (ReturnedBalance (balances (fst (exec s sender v PurchasePoints)) sender))
          \<and> clearBalance (fst (exec s sender v PurchasePoints)) sender =
              Some ((n + unat v * 10000 div 10 ^ 18) mod 2 ^ 32)
          \<and> (n + unat v * 10000 div 10 ^ 18 < 2 ^ 32 \<longrightarrow>
               clearBalance (fst (exec s sender v PurchasePoints)) sender =
                 Some (n + unat v * 10000 div 10 ^ 18)))"
proof (intro conjI impI)
  assume "v = 0"
  then show "exec s sender v PurchasePoints = (s, Inl ZeroPayment)"
    by (simp add: exec_PurchasePoints purchasePoints_fails)
next
  assume "0 < v \<and> unat v * 10000 < 2 ^ 256 \<and> unat v * 10000 div 10 ^ 18 = 0"
  then show "exec s sender v PurchasePoints = (s, Inl BelowMinimum)"
    by (simp add: exec_PurchasePoints purchasePoints_fails)
next
  assume a: "2 ^ 256 \<le> unat v * 10000"
  then have "0 < v" by (cases "v = 0") (simp_all add: word_neq_0_conv)
  with a show "exec s sender v PurchasePoints = (s, Inl Panic)"
    by (simp add: exec_PurchasePoints purchasePoints_fails)
next
  assume a: "unat v * 10000 < 2 ^ 256 \<and> 0 < unat v * 10000 div 10 ^ 18"
  then show "snd (exec s sender v PurchasePoints) =
            Inr (ReturnedBalance (balances (fst (exec s sender v PurchasePoints)) sender))"
    using purchasePoints_succeeds(1) [OF assms] by simp
  from a have b: "clearBalance (fst (exec s sender v PurchasePoints)) sender =
      Some ((n + unat v * 10000 div 10 ^ 18 mod 2 ^ 32) mod 2 ^ 32)"
    using purchasePoints_succeeds(3) [OF assms] by simp
  then show c: "clearBalance (fst (exec s sender v PurchasePoints)) sender =
      Some ((n + unat v * 10000 div 10 ^ 18) mod 2 ^ 32)"
    by (simp only: mod_add_right_eq)
  assume "n + unat v * 10000 div 10 ^ 18 < 2 ^ 32"
  then show "clearBalance (fst (exec s sender v PurchasePoints)) sender =
      Some (n + unat v * 10000 div 10 ^ 18)"
    using c by simp
qed

theorem purchasePoints_balance_witness:
  "consistent start \<and> clearBalance start alice = Some 0
   \<and> exec start alice 0 PurchasePoints = (start, Inl ZeroPayment)
   \<and> exec start alice 99999999999999 PurchasePoints = (start, Inl BelowMinimum)
   \<and> exec start alice 115792089237316195423570985008687907853269984665640564039457584007913129639935 PurchasePoints = (start, Inl Panic)
   \<and> snd (exec start alice ether PurchasePoints) = Inr (ReturnedBalance (Euint32 2))
   \<and> clearBalance afterPoints alice = Some 10000"
proof -
  note t = purchasePoints_balance [OF consistent_sample(1) start_balance]
  have "exec start alice 0 PurchasePoints = (start, Inl ZeroPayment)"
    using t [of 0] by simp
  moreover have "exec start alice 99999999999999 PurchasePoints = (start, Inl BelowMinimum)"
    using t [of 99999999999999] by simp
  moreover have "exec start alice 115792089237316195423570985008687907853269984665640564039457584007913129639935 PurchasePoints = (start, Inl Panic)"
    using t [of 115792089237316195423570985008687907853269984665640564039457584007913129639935] by simp
  moreover have "clearBalance afterPoints alice = Some 10000"
    using t [of ether] by (simp add: ether_def afterPoints_def)
  ultimately show ?thesis
    using consistent_sample(1) start_balance sample_returns(1) by simp
qed

theorem purchasePoints_balance_counterexample:
  "0 < (429496729600000000000000 :: uint256)
   \<and> unat (429496729600000000000000 :: uint256) * 10000 div 10 ^ 18 = 4294967296
   \<and> clearBalance start alice = Some 0
   \<and> snd (exec start alice 429496729600000000000000 PurchasePoints) =
       Inr (ReturnedBalance (Euint32 2))
   \<and> clearBalance (fst (exec start alice 429496729600000000000000 PurchasePoints)) alice =
       Some 0"
  by (simp add: clearBalance_def clear32_def start_def deploy_def run_defs
      del: One_nat_def cong: andThen_weak_cong) simp_all



subsection \<open>Buying a ticket\<close>

lemma unat_debit:
  "unat (b - TICKET_COST) = (if 10 \<le> unat b then unat b - 10 else unat b + 2 ^ 32 - 10)"
  using unat_sub_if_size [of b TICKET_COST] by (simp add: TICKET_COST_def word_size)

lemma debit_mod:
  "(if 10 \<le> n then n - 10 else n + 2 ^ 32 - 10) = nat ((int n - 10) mod 2 ^ 32)"
  if "n < 2 ^ 32" for n :: nat
proof (cases "10 \<le> n")
  case True
  then have "(int n - 10) mod 2 ^ 32 = int n - 10"
    using that by (intro mod_pos_pos_trivial) simp_all
  with True show ?thesis by simp
next
  case False
  then have "(int n - 10 + 2 ^ 32) mod 2 ^ 32 = int n - 10 + 2 ^ 32"
    by (intro mod_pos_pos_trivial) simp_all
  moreover have "(int n - 10 + 2 ^ 32) mod 2 ^ 32 = (int n - 10) mod 2 ^ 32"
    by (rule mod_add_self2)
  ultimately have "(int n - 10) mod 2 ^ 32 = int n - 10 + 2 ^ 32" by simp
  with False show ?thesis by simp
qed

lemma unat_winning: "unat (winning r) = unat r mod 9 + 1"
proof -
  have m: "unat (r mod 9) = unat r mod 9" by (simp add: unat_mod)
  have "unat (r mod 9) + unat (1 :: uint8) < 2 ^ LENGTH(8)"
    using m by simp
  then have "unat (r mod 9 + 1) = unat (r mod 9) + unat (1 :: uint8)"
    by (simp only: unat_add_lem)
  then show ?thesis using m by (simp add: winning_def)
qed

lemma winning_range: "1 \<le> unat (winning r) \<and> unat (winning r) \<le> 9"
proof -
  have "unat r mod 9 < 9" by simp
  then show ?thesis unfolding unat_winning by linarith
qed


lemma purchaseTicket_succeeds:
  assumes c: "consistent s" and n: "clearBalance s sender = Some n"
    and vf: "verifies pf (thisAddress s) sender"
    and x: "map_of (batch pf) x = Some p1" and y: "map_of (batch pf) y = Some p2"
  defines "s' \<equiv> fst (exec s sender 0 (PurchaseTicket (ExternalEuint8 x) (ExternalEuint8 y) pf))"
  shows "snd (exec s sender 0 (PurchaseTicket (ExternalEuint8 x) (ExternalEuint8 y) pf)) =
           Inr ReturnedNothing"
    and "clearBalance s' sender = Some (if 10 \<le> n then n - 10 else n + 2 ^ 32 - 10)"
    and "tickets s' = (tickets s)(sender :=
           \<lparr>firstNumber = Euint8 (fresh s + 2), secondNumber = Euint8 (fresh s + 3),
            exists = True\<rparr>)"
    and "clear8 s' (Euint8 (fresh s + 2)) = Some (unat p1)"
    and "clear8 s' (Euint8 (fresh s + 3)) = Some (unat p2)"
    and "trace s' = trace s @
            [Literal (fresh s), Compute Sub (fresh s + 1), Admit (fresh s + 2),
             Admit (fresh s + 3),
             Store (BalanceSlot sender), Store (TicketFirstSlot sender),
             Store (TicketSecondSlot sender), Store (TicketExistsSlot sender),
             Grant (fresh s + 1) (thisAddress s), Grant (fresh s + 1) sender,
             Grant (fresh s + 2) (thisAddress s), Grant (fresh s + 3) (thisAddress s),
             Grant (fresh s + 2) sender, Grant (fresh s + 3) sender,
             Emit (TicketPurchased sender)]"
proof -
  from n obtain b where b: "read32 s (balances s sender) = Inr b" "unat b = n"
    unfolding clearBalance_def by (rule clear32_Some)
  from c have f: "0 < fresh s" and kb: "unwrap32 (balances s sender) < fresh s"
    by (simp_all add: consistent_def known32_def)
  from purchaseTicket_exec [OF f kb b(1) vf x y]
  obtain t' where t':
    "purchaseTicket s sender (ExternalEuint8 x) (ExternalEuint8 y) pf = Inr t'"
    "payloads t' (fresh s + 1) = Some (P32 (b - TICKET_COST))"
    "payloads t' (fresh s + 2) = Some (P8 p1)"
    "payloads t' (fresh s + 3) = Some (P8 p2)"
    "balances t' = (balances s)(sender := Euint32 (fresh s + 1))"
    "tickets t' = (tickets s)(sender :=
            \<lparr>firstNumber = Euint8 (fresh s + 2), secondNumber = Euint8 (fresh s + 3),
             exists = True\<rparr>)"
    "trace t' = trace s @
            [Literal (fresh s), Compute Sub (fresh s + 1), Admit (fresh s + 2),
             Admit (fresh s + 3),
             Store (BalanceSlot sender), Store (TicketFirstSlot sender),
             Store (TicketSecondSlot sender), Store (TicketExistsSlot sender),
             Grant (fresh s + 1) (thisAddress s), Grant (fresh s + 1) sender,
             Grant (fresh s + 2) (thisAddress s), Grant (fresh s + 3) (thisAddress s),
             Grant (fresh s + 2) sender, Grant (fresh s + 3) sender,
             Emit (TicketPurchased sender)]"
    by blast
  have e: "exec s sender 0 (PurchaseTicket (ExternalEuint8 x) (ExternalEuint8 y) pf) =
      (t', Inr ReturnedNothing)"
    using t'(1) by (simp add: exec_PurchaseTicket)
  then have s': "s' = t'" by (simp add: s'_def)
  show "snd (exec s sender 0 (PurchaseTicket (ExternalEuint8 x) (ExternalEuint8 y) pf)) =
           Inr ReturnedNothing"
    using e by simp
  show "clearBalance s' sender = Some (if 10 \<le> n then n - 10 else n + 2 ^ 32 - 10)"
    using s' t'(2,5) b(2) by (simp add: clearBalance_def clear32_def read32_def unat_debit)
  show "tickets s' = (tickets s)(sender :=
           \<lparr>firstNumber = Euint8 (fresh s + 2), secondNumber = Euint8 (fresh s + 3),
            exists = True\<rparr>)"
    using s' t'(6) by simp
  show "clear8 s' (Euint8 (fresh s + 2)) = Some (unat p1)"
    using s' t'(3) by (simp add: clear8_def read8_def)
  show "clear8 s' (Euint8 (fresh s + 3)) = Some (unat p2)"
    using s' t'(4) by (simp add: clear8_def read8_def)
  show "trace s' = trace s @
            [Literal (fresh s), Compute Sub (fresh s + 1), Admit (fresh s + 2),
             Admit (fresh s + 3),
             Store (BalanceSlot sender), Store (TicketFirstSlot sender),
             Store (TicketSecondSlot sender), Store (TicketExistsSlot sender),
             Grant (fresh s + 1) (thisAddress s), Grant (fresh s + 1) sender,
             Grant (fresh s + 2) (thisAddress s), Grant (fresh s + 3) (thisAddress s),
             Grant (fresh s + 2) sender, Grant (fresh s + 3) sender,
             Emit (TicketPurchased sender)]"
    using s' t'(7) by simp
qed

lemma purchaseTicket_only_InvalidProof:
  assumes c: "consistent s"
    and e: "isl (snd (exec s sender 0 (PurchaseTicket X Y pf)))"
  shows "exec s sender 0 (PurchaseTicket X Y pf) = (s, Inl InvalidProof)"
proof -
  from c have f: "0 < fresh s" and kb: "known32 s (balances s sender)"
    by (simp_all add: consistent_def)
  from kb obtain b where b: "unwrap32 (balances s sender) < fresh s"
    "read32 s (balances s sender) = Inr b" by (rule known32D)
  from e obtain err where err: "purchaseTicket s sender X Y pf = Inl err"
    by (cases "purchaseTicket s sender X Y pf") (simp_all add: exec_PurchaseTicket)
  from purchaseTicket_Inl [OF f b err] err show ?thesis
    by (simp add: exec_PurchaseTicket)
qed

lemma purchaseTicket_unverified:
  assumes c: "consistent s" and vf: "\<not> verifies pf (thisAddress s) sender"
  shows "exec s sender 0 (PurchaseTicket X Y pf) = (s, Inl InvalidProof)"
proof -
  from c have f: "0 < fresh s" and kb: "known32 s (balances s sender)"
    by (simp_all add: consistent_def)
  from kb obtain b where b: "unwrap32 (balances s sender) < fresh s"
    "read32 s (balances s sender) = Inr b" by (rule known32D)
  have "isl (purchaseTicket s sender X Y pf)"
  proof (cases "purchaseTicket s sender X Y pf")
    case (Inr t)
    from f b Inr obtain x y p1 p2 where "verifies pf (thisAddress s) sender"
      by (rule purchaseTicket_Inr_proof)
    with vf show ?thesis by simp
  qed simp
  then have "isl (snd (exec s sender 0 (PurchaseTicket X Y pf)))"
    by (cases "purchaseTicket s sender X Y pf") (simp_all add: exec_PurchaseTicket)
  with c show ?thesis by (rule purchaseTicket_only_InvalidProof)
qed


lemma picks_verify:
  "verifies picks (thisAddress start) alice" "verifies picks (thisAddress afterPoints) alice"
  "verifies picks (thisAddress afterTicket) alice"
  "map_of (batch picks) 7 = Some 1" "map_of (batch picks) 8 = Some 2"
  by (simp_all add: verifies_def picks_def start_def deploy_def afterPoints_eq afterTicket_eq
      lottery_def)

text \<open>
  Claim C3. For every caller and every balance \<open>n\<close>, also \<open>n < 10\<close> and \<open>n = 0\<close>,
  \<open>purchaseTicket\<close> debits \<open>TICKET_COST = 10\<close> by 32-bit modular subtraction: once the two
  ciphertexts are admitted the call succeeds and the new balance decrypts to
  \<open>(n - 10) mod 2 ^ 32\<close>, which for \<open>n < 10\<close> is the wrapped value \<open>n + 2 ^ 32 - 10\<close>.
  There is no affordability check: the only failure of the call is \<open>InvalidProof\<close>.
\<close>

theorem purchaseTicket_debit_wraps:
  assumes "consistent s" and "clearBalance s sender = Some n"
  shows "(verifies pf (thisAddress s) sender \<and> map_of (batch pf) x = Some p1
          \<and> map_of (batch pf) y = Some p2 \<longrightarrow>
          snd (exec s sender 0 (PurchaseTicket (ExternalEuint8 x) (ExternalEuint8 y) pf)) =
            Inr ReturnedNothing
          \<and> clearBalance
               (fst (exec s sender 0 (PurchaseTicket (ExternalEuint8 x) (ExternalEuint8 y) pf)))
               sender = Some (nat ((int n - 10) mod 2 ^ 32))
          \<and> (n < 10 \<longrightarrow>
               clearBalance
                 (fst (exec s sender 0
                    (PurchaseTicket (ExternalEuint8 x) (ExternalEuint8 y) pf)))
                 sender = Some (n + 2 ^ 32 - 10)))
       \<and> (isl (snd (exec s sender 0 (PurchaseTicket X Y pf'))) \<longrightarrow>
            exec s sender 0 (PurchaseTicket X Y pf') = (s, Inl InvalidProof))"
proof (intro conjI impI)
  from assms(2) obtain b where "read32 s (balances s sender) = Inr b" "unat b = n"
    unfolding clearBalance_def by (rule clear32_Some)
  then have lt: "n < 2 ^ 32" using unsigned_less [of b, where 'a = nat] by auto
  assume a: "verifies pf (thisAddress s) sender \<and> map_of (batch pf) x = Some p1
          \<and> map_of (batch pf) y = Some p2"
  then have vf: "verifies pf (thisAddress s) sender" and x: "map_of (batch pf) x = Some p1"
    and y: "map_of (batch pf) y = Some p2" by simp_all
  show "snd (exec s sender 0 (PurchaseTicket (ExternalEuint8 x) (ExternalEuint8 y) pf)) =
            Inr ReturnedNothing"
    by (rule purchaseTicket_succeeds(1) [OF assms vf x y])
  have d: "clearBalance
       (fst (exec s sender 0 (PurchaseTicket (ExternalEuint8 x) (ExternalEuint8 y) pf)))
       sender = Some (if 10 \<le> n then n - 10 else n + 2 ^ 32 - 10)"
    by (rule purchaseTicket_succeeds(2) [OF assms vf x y])
  then show "clearBalance
       (fst (exec s sender 0 (PurchaseTicket (ExternalEuint8 x) (ExternalEuint8 y) pf)))
       sender = Some (nat ((int n - 10) mod 2 ^ 32))"
    by (simp only: debit_mod [OF lt])
  assume "n < 10"
  with d show "clearBalance
       (fst (exec s sender 0 (PurchaseTicket (ExternalEuint8 x) (ExternalEuint8 y) pf)))
       sender = Some (n + 2 ^ 32 - 10)"
    by simp
next
  assume "isl (snd (exec s sender 0 (PurchaseTicket X Y pf')))"
  with assms(1) show "exec s sender 0 (PurchaseTicket X Y pf') = (s, Inl InvalidProof)"
    by (rule purchaseTicket_only_InvalidProof)
qed

theorem purchaseTicket_debit_wraps_witness:
  "consistent start \<and> clearBalance start alice = Some 0
   \<and> verifies picks (thisAddress start) alice
   \<and> map_of (batch picks) 7 = Some 1 \<and> map_of (batch picks) 8 = Some 2
   \<and> snd (exec start alice 0 buyTicket) = Inr ReturnedNothing
   \<and> clearBalance overdrawn alice = Some 4294967286
   \<and> isl (snd (exec start alice 0 (PurchaseTicket (ExternalEuint8 7) (ExternalEuint8 9) picks)))
   \<and> exec start alice 0 (PurchaseTicket (ExternalEuint8 7) (ExternalEuint8 9) picks) =
       (start, Inl InvalidProof)"
proof -
  have i: "isl (snd (exec start alice 0
      (PurchaseTicket (ExternalEuint8 7) (ExternalEuint8 9) picks)))"
    by (simp add: start_def deploy_def run_defs del: One_nat_def cong: andThen_weak_cong)
  from purchaseTicket_debit_wraps [OF consistent_sample(1) start_balance,
      of picks 7 1 8 2 "ExternalEuint8 7" "ExternalEuint8 9" picks]
    picks_verify(1,4,5) i consistent_sample(1) start_balance
  show ?thesis by (simp add: buyTicket_def overdrawn_def)
qed

text \<open>
  Claim C7, as amended. A successful \<open>purchaseTicket\<close> first computes the debit (the
  literal 10, then the subtraction), then admits the two external ciphertexts through proof
  validation, then stores balance and ticket, then records the six grants, then emits its
  event; this is the whole of what it does, in this order. The validation is scoped to this
  contract and the caller: with a proof that does not bind them the call fails with
  \<open>InvalidProof\<close> and changes nothing.
\<close>

theorem purchaseTicket_order:
  assumes "consistent s"
  shows "(verifies pf (thisAddress s) sender \<and> map_of (batch pf) x = Some p1
          \<and> map_of (batch pf) y = Some p2 \<longrightarrow>
          trace (fst (exec s sender 0
                   (PurchaseTicket (ExternalEuint8 x) (ExternalEuint8 y) pf))) =
            trace s @
            [Literal (fresh s), Compute Sub (fresh s + 1), Admit (fresh s + 2),
             Admit (fresh s + 3),
             Store (BalanceSlot sender), Store (TicketFirstSlot sender),
             Store (TicketSecondSlot sender), Store (TicketExistsSlot sender),
             Grant (fresh s + 1) (thisAddress s), Grant (fresh s + 1) sender,
             Grant (fresh s + 2) (thisAddress s), Grant (fresh s + 3) (thisAddress s),
             Grant (fresh s + 2) sender, Grant (fresh s + 3) sender,
             Emit (TicketPurchased sender)])
       \<and> (\<not> verifies pf' (thisAddress s) sender \<longrightarrow>
            exec s sender 0 (PurchaseTicket X Y pf') = (s, Inl InvalidProof))"
proof (intro conjI impI)
  from assms have "known32 s (balances s sender)" by (simp add: consistent_def)
  then obtain b where "read32 s (balances s sender) = Inr b" by (rule known32D)
  then have n: "clearBalance s sender = Some (unat b)"
    by (simp add: clearBalance_def clear32_def)
  assume "verifies pf (thisAddress s) sender \<and> map_of (batch pf) x = Some p1
          \<and> map_of (batch pf) y = Some p2"
  then have vf: "verifies pf (thisAddress s) sender" and x: "map_of (batch pf) x = Some p1"
    and y: "map_of (batch pf) y = Some p2" by simp_all
  show "trace (fst (exec s sender 0
                   (PurchaseTicket (ExternalEuint8 x) (ExternalEuint8 y) pf))) =
            trace s @
            [Literal (fresh s), Compute Sub (fresh s + 1), Admit (fresh s + 2),
             Admit (fresh s + 3),
             Store (BalanceSlot sender), Store (TicketFirstSlot sender),
             Store (TicketSecondSlot sender), Store (TicketExistsSlot sender),
             Grant (fresh s + 1) (thisAddress s), Grant (fresh s + 1) sender,
             Grant (fresh s + 2) (thisAddress s), Grant (fresh s + 3) (thisAddress s),
             Grant (fresh s + 2) sender, Grant (fresh s + 3) sender,
             Emit (TicketPurchased sender)]"
    by (rule purchaseTicket_succeeds(6) [OF assms n vf x y])
next
  assume "\<not> verifies pf' (thisAddress s) sender"
  with assms show "exec s sender 0 (PurchaseTicket X Y pf') = (s, Inl InvalidProof)"
    by (rule purchaseTicket_unverified)
qed

theorem purchaseTicket_order_witness:
  "consistent afterPoints \<and> verifies picks (thisAddress afterPoints) alice
   \<and> map_of (batch picks) 7 = Some 1 \<and> map_of (batch picks) 8 = Some 2
   \<and> trace afterTicket = trace afterPoints @
        [Literal 3, Compute Sub 4, Admit 5, Admit 6,
         Store (BalanceSlot alice), Store (TicketFirstSlot alice),
         Store (TicketSecondSlot alice), Store (TicketExistsSlot alice),
         Grant 4 lottery, Grant 4 alice, Grant 5 lottery, Grant 6 lottery,
         Grant 5 alice, Grant 6 alice, Emit (TicketPurchased alice)]
   \<and> \<not> verifies picks (thisAddress afterPoints) lottery
   \<and> exec afterPoints lottery 0 buyTicket = (afterPoints, Inl InvalidProof)"
proof -
  have f: "fresh afterPoints = 3" "thisAddress afterPoints = lottery"
    by (simp_all add: afterPoints_eq lottery_def)
  have nv: "\<not> verifies picks (thisAddress afterPoints) lottery"
    by (simp add: verifies_def picks_def alice_def lottery_def)
  from purchaseTicket_order [OF consistent_sample(2), of picks alice 7 1 8 2 picks
      "ExternalEuint8 7" "ExternalEuint8 8"]
    purchaseTicket_order [OF consistent_sample(2), of picks lottery 7 1 8 2 picks
      "ExternalEuint8 7" "ExternalEuint8 8"]
    picks_verify(2,4,5) nv consistent_sample(2) f
  show ?thesis by (simp add: buyTicket_def afterTicket_def)
qed

theorem purchaseTicket_order_counterexample:
  "trace (fst (exec start alice 0 buyTicket)) =
     [Literal 1, Compute Sub 2, Admit 3, Admit 4,
      Store (BalanceSlot alice), Store (TicketFirstSlot alice),
      Store (TicketSecondSlot alice), Store (TicketExistsSlot alice),
      Grant 2 lottery, Grant 2 alice, Grant 3 lottery, Grant 4 lottery,
      Grant 3 alice, Grant 4 alice, Emit (TicketPurchased alice)]"
  using overdrawn_eq by (simp add: overdrawn_def alice_def lottery_def)

subsection \<open>Playing a round\<close>

lemma playRound_succeeds:
  assumes c: "consistent s" and ex: "exists (tickets s sender)"
    and p1: "read8 s (firstNumber (tickets s sender)) = Inr p1"
    and p2: "read8 s (secondNumber (tickets s sender)) = Inr p2"
    and b: "read32 s (balances s sender) = Inr b"
  defines "s' \<equiv> fst (exec s sender 0 PlayRound)"
    and "w1 \<equiv> winning (entropy s (draws s))"
    and "w2 \<equiv> winning (entropy s (draws s + 1))"
  defines "n \<equiv> (if p1 = w1 then 1 else 0) + (if p2 = w2 then 1 else (0::uint8))"
  defines "rw \<equiv> (if n = 2 then TWO_MATCH_REWARD else if n = 1 then ONE_MATCH_REWARD else 0)"
  shows "snd (exec s sender 0 PlayRound) =
           Inr (ReturnedDraw (Euint8 (fresh s + 5)) (Euint8 (fresh s + 7))
                  (Euint32 (fresh s + 20)))"
    and "lastResults s' = (lastResults s)(sender :=
            \<lparr>firstWinning = Euint8 (fresh s + 5), secondWinning = Euint8 (fresh s + 7),
             reward = Euint32 (fresh s + 20)\<rparr>)"
    and "read8 s' (Euint8 (fresh s + 5)) = Inr w1"
    and "read8 s' (Euint8 (fresh s + 7)) = Inr w2"
    and "read8 s' (Euint8 (fresh s + 12)) = Inr n"
    and "read32 s' (Euint32 (fresh s + 20)) = Inr rw"
    and "read32 s' (balances s' sender) = Inr (b + rw)"
    and "tickets s' = (tickets s)(sender := (tickets s sender)\<lparr>exists := False\<rparr>)"
    and "draws s' = draws s + 2" and "entropy s' = entropy s"
    and "filter isRandom (drop (length (trace s)) (trace s')) =
            [Random (fresh s + 2), Random (fresh s + 3)]"
    and "read8 s' (firstNumber (tickets s sender)) = Inr p1"
    and "read8 s' (secondNumber (tickets s sender)) = Inr p2"
proof -
  from c have f: "0 < fresh s" and kb: "unwrap32 (balances s sender) < fresh s"
    and k1: "unwrap8 (firstNumber (tickets s sender)) < fresh s"
    and k2: "unwrap8 (secondNumber (tickets s sender)) < fresh s"
    by (simp_all add: consistent_def known32_def known8_def)
  have w: "w1 = entropy s (draws s) mod 9 + 1" "w2 = entropy s (draws s + 1) mod 9 + 1"
    by (simp_all add: w1_def w2_def winning_def)
  have n: "n = (if p1 = w1 then 1 else 0) + (if p2 = w2 then 1 else (0::uint8))"
    by (simp add: n_def)
  have rw: "rw = (if n = 2 then TWO_MATCH_REWARD else if n = 1 then ONE_MATCH_REWARD else 0)"
    by (simp add: rw_def)
  from playRound_exec [OF f ex k1 k2 kb p1 p2 b w n rw]
  obtain t' where t':
    "playRound s sender =
       Inr (t', Euint8 (fresh s + 5), Euint8 (fresh s + 7), Euint32 (fresh s + 20))"
    "\<forall>h<fresh s. payloads t' h = payloads s h"
    "payloads t' (fresh s + 5) = Some (P8 w1)"
    "payloads t' (fresh s + 7) = Some (P8 w2)"
    "payloads t' (fresh s + 20) = Some (P32 rw)"
    "payloads t' (fresh s + 21) = Some (P32 (b + rw))"
    "balances t' = (balances s)(sender := Euint32 (fresh s + 21))"
    "tickets t' = (tickets s)(sender := (tickets s sender)\<lparr>exists := False\<rparr>)"
    "lastResults t' = (lastResults s)(sender :=
            \<lparr>firstWinning = Euint8 (fresh s + 5), secondWinning = Euint8 (fresh s + 7),
             reward = Euint32 (fresh s + 20)\<rparr>)"
    "entropy t' = entropy s" "draws t' = draws s + 2"
    "payloads t' (fresh s + 12) = Some (P8 n)"
    "filter isRandom (drop (length (trace s)) (trace t')) =
            [Random (fresh s + 2), Random (fresh s + 3)]"
    by blast
  have e: "exec s sender 0 PlayRound =
      (t', Inr (ReturnedDraw (Euint8 (fresh s + 5)) (Euint8 (fresh s + 7))
                  (Euint32 (fresh s + 20))))"
    using t'(1) by (simp add: exec_PlayRound)
  then have s': "s' = t'" by (simp add: s'_def)
  show "snd (exec s sender 0 PlayRound) =
           Inr (ReturnedDraw (Euint8 (fresh s + 5)) (Euint8 (fresh s + 7))
                  (Euint32 (fresh s + 20)))"
    using e by simp
  show "lastResults s' = (lastResults s)(sender :=
            \<lparr>firstWinning = Euint8 (fresh s + 5), secondWinning = Euint8 (fresh s + 7),
             reward = Euint32 (fresh s + 20)\<rparr>)"
    using s' t'(9) by simp
  show "read8 s' (Euint8 (fresh s + 5)) = Inr w1" using s' t'(3) by (simp add: read8_def)
  show "read8 s' (Euint8 (fresh s + 7)) = Inr w2" using s' t'(4) by (simp add: read8_def)
  show "read8 s' (Euint8 (fresh s + 12)) = Inr n" using s' t'(12) by (simp add: read8_def)
  show "read32 s' (Euint32 (fresh s + 20)) = Inr rw" using s' t'(5) by (simp add: read32_def)
  show "read32 s' (balances s' sender) = Inr (b + rw)"
    using s' t'(6,7) by (simp add: read32_def)
  show "tickets s' = (tickets s)(sender := (tickets s sender)\<lparr>exists := False\<rparr>)"
    using s' t'(8) by simp
  show "draws s' = draws s + 2" using s' t'(11) by simp
  show "entropy s' = entropy s" using s' t'(10) by simp
  show "filter isRandom (drop (length (trace s)) (trace s')) =
            [Random (fresh s + 2), Random (fresh s + 3)]"
    using s' t'(13) by simp
  show "read8 s' (firstNumber (tickets s sender)) = Inr p1"
    using read8_frame [OF t'(2) k1] p1 s' by simp
  show "read8 s' (secondNumber (tickets s sender)) = Inr p2"
    using read8_frame [OF t'(2) k2] p2 s' by simp
qed

lemma clear_reads:
  "read8 s x = Inr w \<Longrightarrow> clear8 s x = Some (unat w)"
  "read32 s y = Inr v \<Longrightarrow> clear32 s y = Some (unat v)"
  by (simp_all add: clear8_def clear32_def)

lemma afterTicket_reads:
  "exists (tickets afterTicket alice)"
  "clear8 afterTicket (firstNumber (tickets afterTicket alice)) = Some 1"
  "clear8 afterTicket (secondNumber (tickets afterTicket alice)) = Some 2"
  "clearBalance afterTicket alice = Some 9990"
  "fresh afterTicket = 7" "draws afterTicket = 0" "entropy afterTicket = byteSource"
  by (simp_all add: afterTicket_eq alice_def clearBalance_def clear32_def clear8_def
      read32_def read8_def)

lemma afterRound_reads:
  "lastResults afterRound alice =
     \<lparr>firstWinning = Euint8 12, secondWinning = Euint8 14, reward = Euint32 27\<rparr>"
  "tickets afterRound alice =
     \<lparr>firstNumber = Euint8 5, secondNumber = Euint8 6, exists = False\<rparr>"
  by (simp_all add: afterRound_eq alice_def)

lemma sample_winning:
  "unat (winning (byteSource 0)) = 1" "unat (winning (byteSource 1)) = 2"
  by (simp_all add: unat_winning byteSource_def)

text \<open>
  Claim C4, as amended. After a successful \<open>playRound\<close> the reward decrypts to 0 when
  neither pick equals its winning number, to \<open>ONE_MATCH_REWARD = 100\<close> when exactly one
  does and to \<open>TWO_MATCH_REWARD = 1000\<close> when both do; the total of hits, the 8-bit sum of
  the two indicators, is 0, 1 or 2. The new balance decrypts to the balance before the
  round plus the reward modulo \<open>2 ^ 32\<close>, which is that sum exactly when it is below
  \<open>2 ^ 32\<close>, and the ticket is inactive.
\<close>

theorem playRound_reward:
  assumes "consistent s" and "exists (tickets s sender)"
    and "clear8 s (firstNumber (tickets s sender)) = Some p1"
    and "clear8 s (secondNumber (tickets s sender)) = Some p2"
    and "clearBalance s sender = Some n"
  shows "let s' = fst (exec s sender 0 PlayRound);
             w1 = unat (winning (entropy s (draws s)));
             w2 = unat (winning (entropy s (draws s + 1)));
             r = (if p1 = w1 \<and> p2 = w2 then 1000 else if p1 = w1 \<or> p2 = w2 then 100 else 0)
         in \<not> isl (snd (exec s sender 0 PlayRound))
          \<and> clear8 s' (firstWinning (lastResults s' sender)) = Some w1
          \<and> clear8 s' (secondWinning (lastResults s' sender)) = Some w2
          \<and> clear8 s' (Euint8 (fresh s + 12)) =
              Some ((if p1 = w1 then 1 else 0) + (if p2 = w2 then 1 else 0))
          \<and> clear32 s' (reward (lastResults s' sender)) = Some r
          \<and> clearBalance s' sender = Some ((n + r) mod 2 ^ 32)
          \<and> (n + r < 2 ^ 32 \<longrightarrow> clearBalance s' sender = Some (n + r))
          \<and> \<not> exists (tickets s' sender)"
proof -
  from assms(3) obtain q1 where q1: "read8 s (firstNumber (tickets s sender)) = Inr q1"
    "unat q1 = p1" by (rule clear8_Some)
  from assms(4) obtain q2 where q2: "read8 s (secondNumber (tickets s sender)) = Inr q2"
    "unat q2 = p2" by (rule clear8_Some)
  from assms(5) obtain b where b: "read32 s (balances s sender) = Inr b" "unat b = n"
    unfolding clearBalance_def by (rule clear32_Some)
  note r = playRound_succeeds [OF assms(1,2) q1(1) q2(1) b(1)]
  let ?s' = "fst (exec s sender 0 PlayRound)"
  let ?w1 = "winning (entropy s (draws s))"
  let ?w2 = "winning (entropy s (draws s + 1))"
  have c: "q1 = ?w1 \<longleftrightarrow> p1 = unat ?w1" "q2 = ?w2 \<longleftrightarrow> p2 = unat ?w2"
    using q1(2) q2(2) by (auto simp: word_unat_eq_iff)
  have "\<not> isl (snd (exec s sender 0 PlayRound))" using r(1) by simp
  moreover have "clear8 ?s' (firstWinning (lastResults ?s' sender)) = Some (unat ?w1)"
    using r(2,3) by (simp add: clear_reads)
  moreover have "clear8 ?s' (secondWinning (lastResults ?s' sender)) = Some (unat ?w2)"
    using r(2,4) by (simp add: clear_reads)
  moreover have "clear8 ?s' (Euint8 (fresh s + 12)) =
      Some ((if p1 = unat ?w1 then 1 else 0) + (if p2 = unat ?w2 then 1 else 0))"
    using clear_reads(1) [OF r(5)] c
    by (cases "q1 = ?w1"; cases "q2 = ?w2") simp_all
  moreover have rw: "clear32 ?s' (reward (lastResults ?s' sender)) =
      Some (if p1 = unat ?w1 \<and> p2 = unat ?w2 then 1000
            else if p1 = unat ?w1 \<or> p2 = unat ?w2 then 100 else 0)"
    using clear_reads(2) [OF r(6)] r(2) c
    by (cases "q1 = ?w1"; cases "q2 = ?w2")
      (simp_all add: TWO_MATCH_REWARD_def ONE_MATCH_REWARD_def)
  moreover have bal: "clearBalance ?s' sender =
      Some ((n + (if p1 = unat ?w1 \<and> p2 = unat ?w2 then 1000
            else if p1 = unat ?w1 \<or> p2 = unat ?w2 then 100 else 0)) mod 2 ^ 32)"
    using clear_reads(2) [OF r(7)] b(2) c
    by (cases "q1 = ?w1"; cases "q2 = ?w2")
      (simp_all add: clearBalance_def unat_word_ariths TWO_MATCH_REWARD_def
        ONE_MATCH_REWARD_def)
  moreover have "\<not> exists (tickets ?s' sender)" using r(8) by simp
  ultimately show ?thesis by (simp add: Let_def)
qed


theorem playRound_reward_witness:
  "consistent afterTicket \<and> exists (tickets afterTicket alice)
   \<and> clear8 afterTicket (firstNumber (tickets afterTicket alice)) = Some 1
   \<and> clear8 afterTicket (secondNumber (tickets afterTicket alice)) = Some 2
   \<and> clearBalance afterTicket alice = Some 9990
   \<and> \<not> isl (snd (exec afterTicket alice 0 PlayRound))
   \<and> clear8 afterRound (Euint8 12) = Some 1 \<and> clear8 afterRound (Euint8 14) = Some 2
   \<and> clear8 afterRound (Euint8 19) = Some 2
   \<and> clear32 afterRound (Euint32 27) = Some 1000
   \<and> clearBalance afterRound alice = Some 10990
   \<and> \<not> exists (tickets afterRound alice)"
  using playRound_reward [OF consistent_sample(3) afterTicket_reads(1-4)]
    consistent_sample(3) afterTicket_reads afterRound_reads sample_winning
  by (simp add: Let_def afterRound_def [symmetric])

theorem playRound_reward_counterexample:
  "clearBalance overdrawn alice = Some 4294967286
   \<and> snd (exec overdrawn alice 0 PlayRound) =
       Inr (ReturnedDraw (Euint8 10) (Euint8 12) (Euint32 25))
   \<and> clear32 (fst (exec overdrawn alice 0 PlayRound)) (Euint32 25) = Some 1000
   \<and> clearBalance (fst (exec overdrawn alice 0 PlayRound)) alice = Some 990"
  using sample_returns(5) overdrawnRound_eq
  by (simp add: overdrawnRound_def overdrawn_eq alice_def clearBalance_def clear32_def
      read32_def)

text \<open>
  Claim C6. In every successful \<open>playRound\<close> each winning number is a random byte modulo
  9, plus 1, and so lies between 1 and 9. The two numbers come from two draws of the
  randomness source: the first from the next byte, the second from the byte after it; the
  call makes exactly these two draws, and neither number is computed from the other.
\<close>

theorem winning_numbers:
  assumes "consistent s" and "exists (tickets s sender)"
  shows "let s' = fst (exec s sender 0 PlayRound);
             b1 = unat (entropy s (draws s));
             b2 = unat (entropy s (draws s + 1))
         in snd (exec s sender 0 PlayRound) =
              Inr (ReturnedDraw (firstWinning (lastResults s' sender))
                     (secondWinning (lastResults s' sender)) (reward (lastResults s' sender)))
          \<and> clear8 s' (firstWinning (lastResults s' sender)) = Some (b1 mod 9 + 1)
          \<and> clear8 s' (secondWinning (lastResults s' sender)) = Some (b2 mod 9 + 1)
          \<and> 1 \<le> b1 mod 9 + 1 \<and> b1 mod 9 + 1 \<le> 9
          \<and> 1 \<le> b2 mod 9 + 1 \<and> b2 mod 9 + 1 \<le> 9
          \<and> draws s' = draws s + 2 \<and> entropy s' = entropy s
          \<and> filter isRandom (drop (length (trace s)) (trace s')) =
              [Random (fresh s + 2), Random (fresh s + 3)]"
proof -
  from assms(1) have "known8 s (firstNumber (tickets s sender))"
    and "known8 s (secondNumber (tickets s sender))" and "known32 s (balances s sender)"
    by (simp_all add: consistent_def)
  then obtain q1 q2 b where q: "read8 s (firstNumber (tickets s sender)) = Inr q1"
    "read8 s (secondNumber (tickets s sender)) = Inr q2"
    "read32 s (balances s sender) = Inr b"
    by (blast elim: known8D known32D)
  note r = playRound_succeeds [OF assms q]
  let ?s' = "fst (exec s sender 0 PlayRound)"
  have "clear8 ?s' (firstWinning (lastResults ?s' sender)) =
      Some (unat (entropy s (draws s)) mod 9 + 1)"
    using clear_reads(1) [OF r(3)] r(2) by (simp add: unat_winning)
  moreover have "clear8 ?s' (secondWinning (lastResults ?s' sender)) =
      Some (unat (entropy s (draws s + 1)) mod 9 + 1)"
    using clear_reads(1) [OF r(4)] r(2) by (simp add: unat_winning)
  moreover have "unat (entropy s (draws s)) mod 9 + 1 \<le> 9"
    and "unat (entropy s (draws s + 1)) mod 9 + 1 \<le> 9"
    using winning_range [of "entropy s (draws s)"] winning_range [of "entropy s (draws s + 1)"]
    by (simp_all add: unat_winning)
  ultimately show ?thesis using r(1,2,9,10,11) by (simp add: Let_def)
qed

theorem winning_numbers_witness:
  "consistent afterTicket \<and> exists (tickets afterTicket alice)
   \<and> snd (exec afterTicket alice 0 PlayRound) =
       Inr (ReturnedDraw (Euint8 12) (Euint8 14) (Euint32 27))
   \<and> unat (byteSource 0) = 0 \<and> unat (byteSource 1) = 1
   \<and> clear8 afterRound (Euint8 12) = Some 1 \<and> clear8 afterRound (Euint8 14) = Some 2
   \<and> draws afterTicket = 0 \<and> draws afterRound = 2
   \<and> filter isRandom (drop (length (trace afterTicket)) (trace afterRound)) =
       [Random 9, Random 10]"
  using winning_numbers [OF consistent_sample(3) afterTicket_reads(1)]
    consistent_sample(3) afterTicket_reads afterRound_reads
  by (simp add: Let_def afterRound_def [symmetric] byteSource_def)

text \<open>
  Claim C8. The contract keeps one ticket record per principal, so a principal has at most
  one active ticket. \<open>purchaseTicket\<close> in a state where the caller's ticket is active
  succeeds and replaces the stored picks by the two newly admitted handles; no other
  principal's ticket changes. \<open>playRound\<close> changes the caller's ticket only in its
  \<open>exists\<close> flag: the pick handles stay in place and still decrypt to the same picks, and
  a further \<open>playRound\<close> fails with \<open>NoActiveTicket\<close> and so does not read them.
\<close>

theorem ticket_overwritten_then_consumed:
  assumes "consistent s" and "exists (tickets s sender)"
    and "verifies pf (thisAddress s) sender"
    and "map_of (batch pf) x = Some p1" and "map_of (batch pf) y = Some p2"
  shows "let bought = fst (exec s sender 0
                        (PurchaseTicket (ExternalEuint8 x) (ExternalEuint8 y) pf));
             played = fst (exec s sender 0 PlayRound)
         in snd (exec s sender 0 (PurchaseTicket (ExternalEuint8 x) (ExternalEuint8 y) pf)) =
              Inr ReturnedNothing
          \<and> tickets bought = (tickets s)(sender :=
                \<lparr>firstNumber = Euint8 (fresh s + 2), secondNumber = Euint8 (fresh s + 3),
                 exists = True\<rparr>)
          \<and> firstNumber (tickets bought sender) \<noteq> firstNumber (tickets s sender)
          \<and> secondNumber (tickets bought sender) \<noteq> secondNumber (tickets s sender)
          \<and> clear8 bought (firstNumber (tickets bought sender)) = Some (unat p1)
          \<and> clear8 bought (secondNumber (tickets bought sender)) = Some (unat p2)
          \<and> \<not> isl (snd (exec s sender 0 PlayRound))
          \<and> tickets played = (tickets s)(sender := (tickets s sender)\<lparr>exists := False\<rparr>)
          \<and> clear8 played (firstNumber (tickets played sender)) =
                clear8 s (firstNumber (tickets s sender))
          \<and> clear8 played (secondNumber (tickets played sender)) =
                clear8 s (secondNumber (tickets s sender))
          \<and> exec played sender 0 PlayRound = (played, Inl NoActiveTicket)"
proof -
  from assms(1) have k: "known8 s (firstNumber (tickets s sender))"
    "known8 s (secondNumber (tickets s sender))" "known32 s (balances s sender)"
    by (simp_all add: consistent_def)
  then obtain q1 q2 b where q: "read8 s (firstNumber (tickets s sender)) = Inr q1"
    "read8 s (secondNumber (tickets s sender)) = Inr q2"
    "read32 s (balances s sender) = Inr b"
    by (blast elim: known8D known32D)
  have n: "clearBalance s sender = Some (unat b)"
    using q(3) by (simp add: clearBalance_def clear32_def)
  note t = purchaseTicket_succeeds [OF assms(1) n assms(3-5)]
  note r = playRound_succeeds [OF assms(1,2) q]
  let ?b = "fst (exec s sender 0 (PurchaseTicket (ExternalEuint8 x) (ExternalEuint8 y) pf))"
  let ?p = "fst (exec s sender 0 PlayRound)"
  have old: "unwrap8 (firstNumber (tickets s sender)) < fresh s"
    "unwrap8 (secondNumber (tickets s sender)) < fresh s"
    using k by (simp_all add: known8_def)
  have "unwrap8 (firstNumber (tickets ?b sender)) \<noteq> unwrap8 (firstNumber (tickets s sender))"
    and "unwrap8 (secondNumber (tickets ?b sender)) \<noteq>
      unwrap8 (secondNumber (tickets s sender))"
    using old t(3) by simp_all
  then have "firstNumber (tickets ?b sender) \<noteq> firstNumber (tickets s sender)"
    and "secondNumber (tickets ?b sender) \<noteq> secondNumber (tickets s sender)"
    by metis+
  moreover have "clear8 ?b (firstNumber (tickets ?b sender)) = Some (unat p1)"
    and "clear8 ?b (secondNumber (tickets ?b sender)) = Some (unat p2)"
    using t(3,4,5) by simp_all
  moreover have "clear8 ?p (firstNumber (tickets ?p sender)) =
      clear8 s (firstNumber (tickets s sender))"
    and "clear8 ?p (secondNumber (tickets ?p sender)) =
      clear8 s (secondNumber (tickets s sender))"
    using r(8,12,13) q by (simp_all add: clear8_def)
  moreover have "\<not> exists (tickets ?p sender)" using r(8) by simp
  then have "exec ?p sender 0 PlayRound = (?p, Inl NoActiveTicket)"
    by (simp add: exec_PlayRound playRound_def)
  ultimately show ?thesis using t(1,3) r(1,8) by (simp add: Let_def)
qed

theorem ticket_overwritten_then_consumed_witness:
  "consistent afterTicket \<and> exists (tickets afterTicket alice)
   \<and> verifies picks (thisAddress afterTicket) alice
   \<and> map_of (batch picks) 7 = Some 1 \<and> map_of (batch picks) 8 = Some 2
   \<and> tickets afterTicket alice =
       \<lparr>firstNumber = Euint8 5, secondNumber = Euint8 6, exists = True\<rparr>
   \<and> snd (exec afterTicket alice 0 buyTicket) = Inr ReturnedNothing
   \<and> tickets (fst (exec afterTicket alice 0 buyTicket)) alice =
       \<lparr>firstNumber = Euint8 9, secondNumber = Euint8 10, exists = True\<rparr>
   \<and> tickets afterRound alice =
       \<lparr>firstNumber = Euint8 5, secondNumber = Euint8 6, exists = False\<rparr>
   \<and> clear8 afterRound (Euint8 5) = Some 1 \<and> clear8 afterRound (Euint8 6) = Some 2
   \<and> exec afterRound alice 0 PlayRound = (afterRound, Inl NoActiveTicket)"
proof -
  have t: "tickets afterTicket alice =
       \<lparr>firstNumber = Euint8 5, secondNumber = Euint8 6, exists = True\<rparr>"
    by (simp add: afterTicket_eq alice_def)
  from ticket_overwritten_then_consumed
    [OF consistent_sample(3) afterTicket_reads(1) picks_verify(3,4,5)]
    consistent_sample(3) afterTicket_reads picks_verify(3,4,5) afterRound_reads t
  show ?thesis
    by (simp add: Let_def afterRound_def [symmetric] buyTicket_def)
qed

end
